theory Spec2Isabelle
  imports Complex_Main "HOL-Library.Sublist" "HOL-Library.List_Lexorder" "HOL-Library.Char_ord"
    "HOL-Library.Multiset"
begin

section \<open>JavaScript values\<close>

text \<open>
  Strings are lists of 8-bit characters: the model covers ASCII text, where a JavaScript
  code unit and a \<^typ>\<open>char\<close> coincide. \<open><\<close> on strings is the lexicographic order on
  character codes, as it is in JavaScript and for SQLite's TEXT columns.
\<close>

definition toLowerCase :: "string \<Rightarrow> string" where
  "toLowerCase s =
     map (\<lambda>c. if CHR ''A'' \<le> c \<and> c \<le> CHR ''Z'' then char_of (of_char c + (32::nat)) else c) s"

definition str_includes :: "string \<Rightarrow> string \<Rightarrow> bool" where
  "str_includes s t = sublist t s"

definition startsWith :: "string \<Rightarrow> string \<Rightarrow> bool" where
  "startsWith s t = prefix t s"

definition endsWith :: "string \<Rightarrow> string \<Rightarrow> bool" where
  "endsWith s t = suffix t s"

definition isWhiteSpace :: "char \<Rightarrow> bool" where
  "isWhiteSpace c = (of_char c \<in> {9, 10, 11, 12, 13, 32 :: nat})"

definition trim :: "string \<Rightarrow> string" where
  "trim s = rev (dropWhile isWhiteSpace (rev (dropWhile isWhiteSpace s)))"

definition substring0 :: "nat \<Rightarrow> string \<Rightarrow> string" where
  "substring0 n s = take n s"

fun join :: "string \<Rightarrow> string list \<Rightarrow> string" where
  "join sep [] = []"
| "join sep [x] = x"
| "join sep (x # y # ys) = x @ sep @ join sep (y # ys)"

text \<open>\<open>a || b\<close> on an optional string: \<open>null\<close>, \<open>undefined\<close> and \<open>''\<close> are falsy.\<close>

definition truthy :: "string option \<Rightarrow> bool" where
  "truthy x = (case x of None \<Rightarrow> False | Some s \<Rightarrow> s \<noteq> [])"

definition orElse :: "string option \<Rightarrow> string \<Rightarrow> string" where
  "orElse x d = (case x of None \<Rightarrow> d | Some s \<Rightarrow> if s = [] then d else s)"

text \<open>
  Numbers: \<open>NaN\<close>, the two infinities and the finite values. Every comparison with
  \<open>NaN\<close> is false.
\<close>

datatype jsnum = NaN | NegInf | Fin rat | PosInf

fun num_lt :: "jsnum \<Rightarrow> jsnum \<Rightarrow> bool" where
  "num_lt NaN y = False"
| "num_lt x NaN = False"
| "num_lt (Fin a) (Fin b) = (a < b)"
| "num_lt NegInf NegInf = False"
| "num_lt NegInf y = True"
| "num_lt x PosInf = (x \<noteq> PosInf)"
| "num_lt x y = False"

text \<open>
  The numbers that the code computes with are doubles. A double is modelled by the
  rational it denotes, and every arithmetic operation rounds its exact result to the
  nearest double, ties to even: \<open>dbl\<close> keeps 53 significant bits. Scores, importances
  and byte counts stay far from the range where a double overflows or becomes subnormal,
  which \<open>dbl\<close> leaves out.
\<close>

definition pow2 :: "int \<Rightarrow> rat" where
  "pow2 k = (if 0 \<le> k then 2 ^ nat k else 1 / 2 ^ nat (- k))"

text \<open>The number of binary digits of a positive integer.\<close>

function bitLength :: "int \<Rightarrow> int" where
  "bitLength n = (if n \<le> 0 then 0 else 1 + bitLength (n div 2))"
  by pat_completeness auto
termination
  by (relation "measure nat") auto

declare bitLength.simps [simp del]

text \<open>The exponent of a non-zero number: the \<open>e\<close> with \<open>2 ^ e \<le> |x| < 2 ^ (e + 1)\<close>.\<close>

definition exponent :: "rat \<Rightarrow> int" where
  "exponent x =
     (case quotient_of \<bar>x\<bar> of (p, q) \<Rightarrow>
        let e = bitLength p - bitLength q
        in if pow2 e \<le> \<bar>x\<bar> then e else e - 1)"

definition roundHalfEven :: "rat \<Rightarrow> int" where
  "roundHalfEven m =
     (let f = \<lfloor>m\<rfloor>; d = m - of_int f
      in if d < 1 / 2 then f else if 1 / 2 < d then f + 1 else if even f then f else f + 1)"

definition dbl :: "rat \<Rightarrow> rat" where
  "dbl x =
     (if x = 0 then 0
      else let ulp = pow2 (exponent x - 52) in of_int (roundHalfEven (x / ulp)) * ulp)"

definition fadd :: "rat \<Rightarrow> rat \<Rightarrow> rat" where
  "fadd a b = dbl (a + b)"

definition fsub :: "rat \<Rightarrow> rat \<Rightarrow> rat" where
  "fsub a b = dbl (a - b)"

definition fmul :: "rat \<Rightarrow> rat \<Rightarrow> rat" where
  "fmul a b = dbl (a * b)"

definition fdiv :: "rat \<Rightarrow> rat \<Rightarrow> rat" where
  "fdiv a b = dbl (a / b)"

text \<open>The unit roundoff of a double: the largest relative error of one rounding.\<close>

definition unitRoundoff :: rat where
  "unitRoundoff = 1 / 2 ^ 53"

fun show_nat :: "nat \<Rightarrow> string" where
  "show_nat n =
     (if n < 10 then [char_of (48 + n)] else show_nat (n div 10) @ [char_of (48 + n mod 10)])"

declare show_nat.simps [simp del]

definition String_int :: "int \<Rightarrow> string" where
  "String_int i = (if i < 0 then CHR ''-'' # show_nat (nat (- i)) else show_nat (nat i))"

section \<open>The host: what the code takes from its runtime, driver and providers\<close>

text \<open>
  A call that leaves the process: \<open>provider.archiveEmail\<close>, \<open>deleteEmail\<close> and
  \<open>moveEmail\<close> of the provider registered for an account (account id, email id, folder),
  and \<open>shell.openExternal\<close>.
\<close>

datatype remote_call =
    ArchiveEmail string string
  | DeleteEmail string string
  | MoveEmail string string "string option"
  | OpenExternal string

datatype exn = SyntaxError | RuleNotFound | RemoteError remote_call | BindError

text \<open>
  \<open>RegExp_new src\<close> is \<open>new RegExp(src, 'i')\<close>: the exception for a malformed pattern,
  or the pattern's \<open>test\<close>. \<open>Number_str\<close> is \<open>Number\<close> on a string, \<open>Date_getTime\<close> is
  \<open>new Date(s).getTime()\<close> with \<open>None\<close> for \<open>NaN\<close>, \<open>accepts\<close> tells whether a call to a
  mail provider or to the link handler returns rather than throws, \<open>now_sql\<close> is SQLite's
  \<open>datetime('now')\<close>, \<open>now_iso\<close> is \<open>new Date().toISOString()\<close>, \<open>nanoid\<close> a fresh id.
\<close>

record host =
  RegExp_new :: "string \<Rightarrow> exn + (string \<Rightarrow> bool)"
  Number_str :: "string \<Rightarrow> jsnum"
  Date_getTime :: "string \<Rightarrow> int option"
  accepts :: "remote_call \<Rightarrow> bool"
  now_sql :: string
  now_iso :: string
  nanoid :: string

section \<open>Records of the store\<close>

record Attachment =
  att_id :: string
  filename :: string
  att_size :: "int option"

datatype recipients = Addresses "string list" | AddressText string

text \<open>
  An email as \<open>transformEmail\<close> hands it out. Columns that may be NULL are options.
\<close>

record Email =
  email_id :: string
  accountId :: string
  from_address :: string
  fromName :: "string option"
  to_addresses :: recipients
  subject :: "string option"
  snippet :: "string option"
  body :: "string option"
  date :: string
  isRead :: bool
  labels :: "string list"
  category :: string
  importance :: rat
  email_keywords :: "string list"
  attachments :: "Attachment list"
  email_size :: int
  unsubscribeLink :: "string option"
  hasUnsubscribe :: bool

record RuleCondition =
  cond_field :: string
  cond_operator :: string
  cond_value :: string

record RuleAction =
  action_type :: string
  action_value :: "string option"

text \<open>A rule as \<open>getRule\<close> and \<open>getRules\<close> hand it out: the columns of its row.\<close>

record Rule =
  rule_id :: string
  name :: string
  enabled :: bool
  conditions :: "RuleCondition list"
  actions :: "RuleAction list"
  provider :: "string option"
  priority :: int
  hit_count :: int
  last_hit :: "string option"
  created_at :: string
  updated_at :: string

section \<open>RulesEngine: conditions\<close>

datatype field_value = Str string | Num int | Bool bool

definition String_of :: "field_value \<Rightarrow> string" where
  "String_of v =
     (case v of Str s \<Rightarrow> s | Num n \<Rightarrow> String_int n
      | Bool b \<Rightarrow> if b then ''true'' else ''false'')"

definition Number_of :: "host \<Rightarrow> field_value \<Rightarrow> jsnum" where
  "Number_of h v =
     (case v of Str s \<Rightarrow> Number_str h s | Num n \<Rightarrow> Fin (dbl (of_int n))
      | Bool b \<Rightarrow> Fin (if b then 1 else 0))"

text \<open>The first \<open>switch\<close> of \<open>matchesCondition\<close>; \<open>None\<close> is its \<open>default: return false\<close>.\<close>

definition fieldValue :: "Email \<Rightarrow> string \<Rightarrow> field_value option" where
  "fieldValue email f =
     (if f = ''from'' then Some (Str (toLowerCase (from_address email)))
      else if f = ''to'' then
        Some (Str (toLowerCase
          (case to_addresses email of Addresses xs \<Rightarrow> join '' '' xs | AddressText s \<Rightarrow> s)))
      else if f = ''subject'' then Some (Str (toLowerCase (orElse (subject email) [])))
      else if f = ''body'' then
        Some (Str (toLowerCase (orElse (body email) (orElse (snippet email) []))))
      else if f = ''category'' then Some (Str (toLowerCase (category email)))
      else if f = ''date'' then Some (Str (date email))
      else if f = ''hasAttachment'' then Some (Bool (length (attachments email) > 0))
      else if f = ''size'' then Some (Num (email_size email))
      else None)"

definition matchesCondition :: "host \<Rightarrow> Email \<Rightarrow> RuleCondition \<Rightarrow> bool" where
  "matchesCondition h email c =
     (case fieldValue email (cond_field c) of
        None \<Rightarrow> False
      | Some v \<Rightarrow>
          let conditionValue = toLowerCase (cond_value c); op = cond_operator c in
          if op = ''contains'' then str_includes (String_of v) conditionValue
          else if op = ''equals'' then String_of v = conditionValue
          else if op = ''startsWith'' then startsWith (String_of v) conditionValue
          else if op = ''endsWith'' then endsWith (String_of v) conditionValue
          else if op = ''regex'' then
            (case RegExp_new h (cond_value c) of
               Inl e \<Rightarrow> False
             | Inr test \<Rightarrow> test (String_of v))
          else if op = ''before'' then String_of v < conditionValue
          else if op = ''after'' then String_of v > conditionValue
          else if op = ''greaterThan'' then
            num_lt (Number_str h (cond_value c)) (Number_of h v)
          else if op = ''lessThan'' then
            num_lt (Number_of h v) (Number_str h (cond_value c))
          else False)"

fun matchesConditions :: "host \<Rightarrow> Email \<Rightarrow> RuleCondition list \<Rightarrow> bool" where
  "matchesConditions h email [] = True"
| "matchesConditions h email (c # cs) =
     (if \<not> matchesCondition h email c then False else matchesConditions h email cs)"

definition knownFields :: "string list" where
  "knownFields =
     [''from'', ''to'', ''subject'', ''body'', ''category'', ''date'', ''hasAttachment'', ''size'']"

definition knownOperators :: "string list" where
  "knownOperators =
     [''contains'', ''equals'', ''startsWith'', ''endsWith'', ''regex'', ''before'', ''after'',
      ''greaterThan'', ''lessThan'']"

text \<open>A condition that is a regex with a malformed pattern, or names no field or operator
  of the two switches.\<close>

definition failClosed :: "host \<Rightarrow> RuleCondition \<Rightarrow> bool" where
  "failClosed h c =
     ((cond_operator c = ''regex'' \<and> isl (RegExp_new h (cond_value c)))
      \<or> cond_field c \<notin> set knownFields
      \<or> cond_operator c \<notin> set knownOperators)"

section \<open>Sorting\<close>

text \<open>
  A stable sort by a comparison: \<open>le a b\<close> says that \<open>a\<close> may stand before \<open>b\<close>.
  \<open>Array.prototype.sort\<close> with a comparator \<open>cmp\<close> is \<open>jsSort cmp\<close>; a result of
  \<open>NaN\<close> counts as \<open>0\<close> there, which the comparators below compute themselves. SQL's
  \<open>ORDER BY\<close> is modelled by the same stable sort over the table in insertion order.
\<close>

fun insort_by :: "('a \<Rightarrow> 'a \<Rightarrow> bool) \<Rightarrow> 'a \<Rightarrow> 'a list \<Rightarrow> 'a list" where
  "insort_by le x [] = [x]"
| "insort_by le x (y # ys) = (if le x y then x # y # ys else y # insort_by le x ys)"

definition sort_by :: "('a \<Rightarrow> 'a \<Rightarrow> bool) \<Rightarrow> 'a list \<Rightarrow> 'a list" where
  "sort_by le xs = foldr (insort_by le) xs []"

definition jsSort :: "('a \<Rightarrow> 'a \<Rightarrow> int) \<Rightarrow> 'a list \<Rightarrow> 'a list" where
  "jsSort cmp xs = sort_by (\<lambda>a b. cmp a b \<le> 0) xs"

section \<open>DatabaseService and EmailProviderManager\<close>

text \<open>
  The two tables in insertion order, the account ids that have a provider instance
  (\<open>EmailProviderManager.providers\<close>), and the calls that left the process so far.
\<close>

record State =
  emails :: "Email list"
  rules :: "Rule list"
  providers :: "string list"
  requests :: "remote_call list"

text \<open>\<open>ORDER BY priority DESC, created_at\<close>.\<close>

definition ruleOrder :: "Rule \<Rightarrow> Rule \<Rightarrow> bool" where
  "ruleOrder a b =
     (priority a > priority b \<or> (priority a = priority b \<and> created_at a \<le> created_at b))"

definition getRules :: "State \<Rightarrow> Rule list" where
  "getRules st = sort_by ruleOrder (rules st)"

definition getRule :: "string \<Rightarrow> State \<Rightarrow> Rule option" where
  "getRule rid st = find (\<lambda>r. rule_id r = rid) (rules st)"

text \<open>
  The object \<open>saveRule\<close> is handed: the properties it reads and the two camel-case ones
  that \<open>applyRulesToEmail\<close> adds. An object spread from a row has neither of these two.
\<close>

record RuleObject =
  obj_id :: "string option"
  obj_name :: string
  obj_enabled :: bool
  obj_conditions :: "RuleCondition list"
  obj_actions :: "RuleAction list"
  obj_provider :: "string option"
  obj_priority :: int
  hitCount :: "jsnum option"
  lastHit :: "string option"

definition spread :: "Rule \<Rightarrow> RuleObject" where
  "spread r =
     \<lparr>obj_id = Some (rule_id r), obj_name = name r, obj_enabled = enabled r,
      obj_conditions = conditions r, obj_actions = actions r, obj_provider = provider r,
      obj_priority = priority r, hitCount = None, lastHit = None\<rparr>"

text \<open>
  \<open>INSERT OR REPLACE INTO rules (id, name, enabled, conditions, actions, provider,
  priority, updated_at)\<close>: the row with this id is deleted and a new row is inserted; the
  columns the statement does not list take their defaults (\<open>hit_count 0\<close>,
  \<open>last_hit NULL\<close>, \<open>created_at datetime('now')\<close>).
\<close>

definition saveRule :: "host \<Rightarrow> RuleObject \<Rightarrow> State \<Rightarrow> Rule option \<times> State" where
  "saveRule h obj st =
     (let rid = orElse (obj_id obj) (nanoid h);
          row = \<lparr>rule_id = rid, name = obj_name obj, enabled = obj_enabled obj,
                 conditions = obj_conditions obj, actions = obj_actions obj,
                 provider = obj_provider obj, priority = obj_priority obj,
                 hit_count = 0, last_hit = None,
                 created_at = now_sql h, updated_at = now_sql h\<rparr>;
          st' = st\<lparr>rules := filter (\<lambda>r. rule_id r \<noteq> rid) (rules st) @ [row]\<rparr>
      in (getRule rid st', st'))"

definition db_deleteRule :: "string \<Rightarrow> State \<Rightarrow> State" where
  "db_deleteRule rid st = st\<lparr>rules := filter (\<lambda>r. rule_id r \<noteq> rid) (rules st)\<rparr>"

text \<open>
  \<open>getEmails\<close> with the options the services use: \<open>accountId\<close>, \<open>category\<close>, \<open>isRead\<close>
  and \<open>limit\<close>; a falsy option adds no clause. \<open>ORDER BY date DESC\<close>.
\<close>

record EmailQuery =
  q_accountId :: "string option"
  q_category :: "string option"
  q_isRead :: "bool option"
  q_limit :: "nat option"

definition getEmails :: "EmailQuery \<Rightarrow> State \<Rightarrow> Email list" where
  "getEmails q st =
     (let rows = filter (\<lambda>e.
            (if truthy (q_accountId q) then Some (accountId e) = q_accountId q else True)
            \<and> (if truthy (q_category q) then Some (category e) = q_category q else True)
            \<and> (case q_isRead q of None \<Rightarrow> True | Some r \<Rightarrow> isRead e = r)) (emails st);
          ordered = sort_by (\<lambda>a b. date b \<le> date a) rows
      in case q_limit q of
           None \<Rightarrow> ordered
         | Some n \<Rightarrow> if n = 0 then ordered else take n ordered)"

text \<open>\<open>this.db.getEmails({ accountId, limit })\<close>, the query of the services below.\<close>

definition recentEmails :: "nat \<Rightarrow> string option \<Rightarrow> State \<Rightarrow> Email list" where
  "recentEmails n acct st =
     getEmails \<lparr>q_accountId = acct, q_category = None, q_isRead = None, q_limit = Some n\<rparr> st"

definition getEmail :: "string \<Rightarrow> State \<Rightarrow> Email option" where
  "getEmail eid st = find (\<lambda>e. email_id e = eid) (emails st)"

definition updateEmailCategory :: "string \<Rightarrow> string \<Rightarrow> State \<Rightarrow> State" where
  "updateEmailCategory eid cat st =
     st\<lparr>emails := map (\<lambda>e. if email_id e = eid then e\<lparr>category := cat\<rparr> else e) (emails st)\<rparr>"

definition markEmailsRead :: "string list \<Rightarrow> bool \<Rightarrow> State \<Rightarrow> State" where
  "markEmailsRead ids rd st =
     st\<lparr>emails := map (\<lambda>e. if email_id e \<in> set ids then e\<lparr>isRead := rd\<rparr> else e) (emails st)\<rparr>"

definition deleteEmails :: "string list \<Rightarrow> State \<Rightarrow> State" where
  "deleteEmails ids st = st\<lparr>emails := filter (\<lambda>e. email_id e \<notin> set ids) (emails st)\<rparr>"

text \<open>A remote call is recorded, then returns or throws as the host decides.\<close>

definition remote :: "host \<Rightarrow> remote_call \<Rightarrow> State \<Rightarrow> (exn + unit) \<times> State" where
  "remote h c st =
     (if accepts h c then Inr () else Inl (RemoteError c),
      st\<lparr>requests := requests st @ [c]\<rparr>)"

definition pm_archiveEmail :: "host \<Rightarrow> string \<Rightarrow> string \<Rightarrow> State \<Rightarrow> (exn + unit) \<times> State" where
  "pm_archiveEmail h acct eid st =
     (if acct \<in> set (providers st) then remote h (ArchiveEmail acct eid) st else (Inr (), st))"

definition pm_deleteEmail :: "host \<Rightarrow> string \<Rightarrow> string \<Rightarrow> State \<Rightarrow> (exn + unit) \<times> State" where
  "pm_deleteEmail h acct eid st =
     (case (if acct \<in> set (providers st) then remote h (DeleteEmail acct eid) st
            else (Inr (), st)) of
        (Inl e, st') \<Rightarrow> (Inl e, st')
      | (Inr u, st') \<Rightarrow> (Inr (), deleteEmails [eid] st'))"

definition pm_moveEmail ::
  "host \<Rightarrow> string \<Rightarrow> string \<Rightarrow> string option \<Rightarrow> State \<Rightarrow> (exn + unit) \<times> State" where
  "pm_moveEmail h acct eid folder st =
     (if acct \<in> set (providers st) then remote h (MoveEmail acct eid folder) st
      else (Inr (), st))"

section \<open>RulesEngine\<close>

text \<open>
  The body of the \<open>try\<close> in \<open>executeActions\<close>, for one action. The SQL driver refuses to
  bind \<open>undefined\<close>, so \<open>categorize\<close> without a value throws. \<open>label\<close> and every other
  type do nothing.
\<close>

definition executeAction :: "host \<Rightarrow> Email \<Rightarrow> RuleAction \<Rightarrow> State \<Rightarrow> (exn + unit) \<times> State" where
  "executeAction h email a st =
     (let t = action_type a in
      if t = ''move'' then pm_moveEmail h (accountId email) (email_id email) (action_value a) st
      else if t = ''archive'' then pm_archiveEmail h (accountId email) (email_id email) st
      else if t = ''delete'' then pm_deleteEmail h (accountId email) (email_id email) st
      else if t = ''markRead'' then (Inr (), markEmailsRead [email_id email] True st)
      else if t = ''markUnread'' then (Inr (), markEmailsRead [email_id email] False st)
      else if t = ''categorize'' then
        (case action_value a of
           None \<Rightarrow> (Inl BindError, st)
         | Some v \<Rightarrow> (Inr (), updateEmailCategory (email_id email) v st))
      else (Inr (), st))"

text \<open>The \<open>catch\<close> logs the error and the loop goes on with the next action.\<close>

fun executeActions :: "host \<Rightarrow> Email \<Rightarrow> RuleAction list \<Rightarrow> State \<Rightarrow> State" where
  "executeActions h email [] st = st"
| "executeActions h email (a # as) st =
     executeActions h email as (snd (executeAction h email a st))"

text \<open>\<open>x + 1\<close> for a property \<open>x\<close> that may be missing: \<open>undefined + 1\<close> is \<open>NaN\<close>.\<close>

definition plus_one :: "jsnum option \<Rightarrow> jsnum" where
  "plus_one x = (case x of Some (Fin a) \<Rightarrow> Fin (a + 1) | Some y \<Rightarrow> y | None \<Rightarrow> NaN)"

text \<open>The array the loop of \<open>applyRulesToEmail\<close> runs over.\<close>

definition evaluationOrder :: "State \<Rightarrow> Rule list" where
  "evaluationOrder st =
     jsSort (\<lambda>a b. priority b - priority a) (filter enabled (getRules st))"

fun applyLoop ::
  "host \<Rightarrow> Email \<Rightarrow> Rule list \<Rightarrow> RuleAction list \<Rightarrow> State \<Rightarrow> RuleAction list \<times> State" where
  "applyLoop h email [] appliedActions st = (appliedActions, st)"
| "applyLoop h email (rule # rest) appliedActions st =
     (if matchesConditions h email (conditions rule) then
        let st1 = snd (saveRule h
                    ((spread rule)\<lparr>hitCount := Some (plus_one (hitCount (spread rule))),
                                   lastHit := Some (now_iso h)\<rparr>) st);
            st2 = executeActions h email (actions rule) st1
        in applyLoop h email rest (appliedActions @ actions rule) st2
      else applyLoop h email rest appliedActions st)"

definition applyRulesToEmail :: "host \<Rightarrow> Email \<Rightarrow> State \<Rightarrow> RuleAction list \<times> State" where
  "applyRulesToEmail h email st = applyLoop h email (evaluationOrder st) [] st"

text \<open>\<open>Partial<Rule>\<close>: \<open>None\<close> for a key the caller left out.\<close>

record RuleUpdates =
  upd_id :: "string option"
  upd_name :: "string option"
  upd_enabled :: "bool option"
  upd_conditions :: "RuleCondition list option"
  upd_actions :: "RuleAction list option"
  upd_provider :: "string option option"
  upd_priority :: "int option"
  upd_hitCount :: "jsnum option"
  upd_lastHit :: "string option"

definition override :: "'a \<Rightarrow> 'a option \<Rightarrow> 'a" where
  "override x u = (case u of None \<Rightarrow> x | Some y \<Rightarrow> y)"

definition merge :: "Rule \<Rightarrow> RuleUpdates \<Rightarrow> RuleObject" where
  "merge existing u =
     \<lparr>obj_id = Some (override (rule_id existing) (upd_id u)),
      obj_name = override (name existing) (upd_name u),
      obj_enabled = override (enabled existing) (upd_enabled u),
      obj_conditions = override (conditions existing) (upd_conditions u),
      obj_actions = override (actions existing) (upd_actions u),
      obj_provider = override (provider existing) (upd_provider u),
      obj_priority = override (priority existing) (upd_priority u),
      hitCount = upd_hitCount u, lastHit = upd_lastHit u\<rparr>"

definition updateRule ::
  "host \<Rightarrow> string \<Rightarrow> RuleUpdates \<Rightarrow> State \<Rightarrow> (exn + Rule option) \<times> State" where
  "updateRule h ruleId updates st =
     (case getRule ruleId st of
        None \<Rightarrow> (Inl RuleNotFound, st)
      | Some existing \<Rightarrow>
          (case saveRule h (merge existing updates) st of (r, st') \<Rightarrow> (Inr r, st')))"

definition deleteRule :: "string \<Rightarrow> State \<Rightarrow> (exn + unit) \<times> State" where
  "deleteRule ruleId st = (Inr (), db_deleteRule ruleId st)"

record TestResult =
  matchingEmails :: "Email list"
  totalMatches :: nat

definition testRule :: "host \<Rightarrow> string \<Rightarrow> State \<Rightarrow> (exn + TestResult) \<times> State" where
  "testRule h ruleId st =
     (case getRule ruleId st of
        None \<Rightarrow> (Inl RuleNotFound, st)
      | Some rule \<Rightarrow>
          let allEmails = recentEmails 1000 None st;
              matching = filter (\<lambda>email. matchesConditions h email (conditions rule)) allEmails
          in (Inr \<lparr>matchingEmails = take 10 matching, totalMatches = length matching\<rparr>, st))"

section \<open>CleanupService\<close>

record UnsubscribeResult =
  processed :: nat
  skipped :: nat
  links :: "string list"

text \<open>\<open>email?.unsubscribeLink\<close> for the stored email with this id.\<close>

definition linkOf :: "State \<Rightarrow> string \<Rightarrow> string option" where
  "linkOf st emailId = Option.bind (getEmail emailId st) unsubscribeLink"

text \<open>
  The loop of \<open>bulkUnsubscribe\<close>. \<open>shell.openExternal\<close> is awaited outside any \<open>try\<close>:
  when it throws, the call ends with that exception.
\<close>

fun unsubscribeLoop ::
  "host \<Rightarrow> string list \<Rightarrow> UnsubscribeResult \<Rightarrow> State \<Rightarrow> (exn + UnsubscribeResult) \<times> State"
  where
  "unsubscribeLoop h [] counts st = (Inr counts, st)"
| "unsubscribeLoop h (emailId # rest) counts st =
     (case linkOf st emailId of
        None \<Rightarrow> unsubscribeLoop h rest (counts\<lparr>skipped := skipped counts + 1\<rparr>) st
      | Some link \<Rightarrow>
          if link \<noteq> [] then
            (case remote h (OpenExternal link) st of
               (Inl e, st') \<Rightarrow> (Inl e, st')
             | (Inr u, st') \<Rightarrow>
                 unsubscribeLoop h rest
                   (counts\<lparr>links := links counts @ [link], processed := processed counts + 1\<rparr>) st')
          else unsubscribeLoop h rest (counts\<lparr>skipped := skipped counts + 1\<rparr>) st)"

definition bulkUnsubscribe ::
  "host \<Rightarrow> string list \<Rightarrow> State \<Rightarrow> (exn + UnsubscribeResult) \<times> State" where
  "bulkUnsubscribe h emailIds st =
     unsubscribeLoop h emailIds \<lparr>processed = 0, skipped = 0, links = []\<rparr> st"

record LargeOptions =
  minSize :: "int option"
  la_accountId :: "string option"

text \<open>
  The \<open>reduce\<close> over the attachments: a sum of doubles, from the left. A size that is
  missing or 0 adds 0.
\<close>

definition attachmentsTotal :: "Email \<Rightarrow> rat" where
  "attachmentsTotal email =
     foldl (\<lambda>sum att. fadd sum (case att_size att of None \<Rightarrow> 0 | Some n \<Rightarrow> dbl (of_int n))) 0
       (attachments email)"

text \<open>\<open>options.minSize || 5 * 1024 * 1024\<close>: a missing threshold and the threshold 0 are
  both falsy.\<close>

definition findLargeAttachments :: "LargeOptions \<Rightarrow> State \<Rightarrow> Email list" where
  "findLargeAttachments options st =
     (let threshold = (case minSize options of
                         None \<Rightarrow> 5 * 1024 * 1024
                       | Some n \<Rightarrow> if n = 0 then 5 * 1024 * 1024 else dbl (of_int n));
          loaded = recentEmails 5000 (la_accountId options) st
      in filter (\<lambda>email. attachmentsTotal email \<ge> threshold) loaded)"

text \<open>
  The sum of the attachment sizes of a message over the integers, a missing size counting
  0: the sum in the words of the documentation.
\<close>

definition sizeSum :: "Email \<Rightarrow> int" where
  "sizeSum email = (\<Sum>a\<leftarrow>attachments email. case att_size a of None \<Rightarrow> 0 | Some n \<Rightarrow> n)"

text \<open>
  The sizes of a message add up exactly in doubles: their absolute values sum to less than
  \<open>2 ^ 53\<close>.
\<close>

definition exactSizes :: "Email \<Rightarrow> bool" where
  "exactSizes email =
     ((\<Sum>a\<leftarrow>attachments email. case att_size a of None \<Rightarrow> 0 | Some n \<Rightarrow> \<bar>n\<bar>) < 2 ^ 53)"

record DuplicateGroup =
  hash :: string
  group_emails :: "Email list"
  group_subject :: "string option"
  group_from :: string

text \<open>The three parts of the grouping key, and the key: the parts joined with \<open>|\<close>.\<close>

definition keyParts :: "Email \<Rightarrow> string list" where
  "keyParts email =
     [case subject email of None \<Rightarrow> [] | Some s \<Rightarrow> trim (toLowerCase s),
      toLowerCase (from_address email),
      case snippet email of None \<Rightarrow> [] | Some s \<Rightarrow> toLowerCase (substring0 50 s)]"

definition duplicateKey :: "Email \<Rightarrow> string" where
  "duplicateKey email = join ''|'' (keyParts email)"

text \<open>
  The \<open>Map\<close> from key to array, in insertion order: a new key goes to the end, a known
  key has the email pushed onto its array.
\<close>

fun groupPush :: "string \<Rightarrow> Email \<Rightarrow> (string \<times> Email list) list \<Rightarrow> (string \<times> Email list) list"
  where
  "groupPush k email [] = [(k, [email])]"
| "groupPush k email ((k', es) # groups) =
     (if k' = k then (k', es @ [email]) # groups else (k', es) # groupPush k email groups)"

definition groupByKey :: "Email list \<Rightarrow> (string \<times> Email list) list" where
  "groupByKey loaded =
     foldl (\<lambda>groups email. groupPush (duplicateKey email) email groups) [] loaded"

text \<open>\<open>new Date(b.date).getTime() - new Date(a.date).getTime()\<close>; \<open>NaN\<close> counts as 0.\<close>

definition newestFirst :: "host \<Rightarrow> Email \<Rightarrow> Email \<Rightarrow> int" where
  "newestFirst h a b =
     (case (Date_getTime h (date b), Date_getTime h (date a)) of
        (Some tb, Some ta) \<Rightarrow> tb - ta
      | _ \<Rightarrow> 0)"

definition duplicateGroup :: "host \<Rightarrow> string \<times> Email list \<Rightarrow> DuplicateGroup list" where
  "duplicateGroup h g =
     (case g of (k, groupEmails) \<Rightarrow>
        if length groupEmails > 1 then
          (case jsSort (newestFirst h) groupEmails of
             [] \<Rightarrow> []
           | first # others \<Rightarrow>
               [\<lparr>hash = k, group_emails = first # others, group_subject = subject first,
                 group_from = from_address first\<rparr>])
        else [])"

definition findDuplicates :: "host \<Rightarrow> string option \<Rightarrow> State \<Rightarrow> DuplicateGroup list" where
  "findDuplicates h acct st =
     (let loaded = recentEmails 5000 acct st
      in concat (map (duplicateGroup h) (groupByKey loaded)))"

section \<open>EmailClassifier\<close>

record CategoryPattern =
  cat_id :: string
  cat_name :: string
  patterns :: "string list"
  senderPatterns :: "string list"
  cat_keywords :: "string list"
  weight :: rat

definition backslash :: string where
  "backslash = [CHR 0x5C]"

text \<open>
  The table of \<open>initialize\<close>. A pattern is the source text of its regex literal, all of
  which carry the flag \<open>i\<close>; a weight is the double of its decimal literal.
\<close>

definition categoryPatterns :: "CategoryPattern list" where
  "categoryPatterns =
     [
      \<lparr>cat_id = ''financial'', cat_name = ''Financial'',
        patterns =
          [''statement|transaction|balance|deposit|withdrawal|''
             @ ''payment (received|sent)|credit (card|limit)|bank account|''
             @ ''investment|portfolio|dividend|interest (rate|earned)|''
             @ ''wire transfer|ach|routing number'',
           ''your .*(statement|account|balance)|account ending in '' @ backslash @ ''d+''],
        senderPatterns =
          [''bank|chase|wells ?fargo|bofa|bank of america|citibank|''
             @ ''capital ?one|discover|amex|american express|fidelity|schwab|''
             @ ''vanguard|td ameritrade|robinhood|coinbase|paypal|venmo|stripe|''
             @ ''square''],
        cat_keywords =
          [''bank'', ''statement'', ''balance'', ''transaction'', ''payment'',
           ''credit'', ''debit'', ''investment'', ''portfolio'', ''dividend'',
           ''interest''],
        weight = dbl (12 / 10)\<rparr>,
      \<lparr>cat_id = ''hr'', cat_name = ''HR/Recruitment'',
        patterns =
          [''job (offer|application|opportunity)|position at|''
             @ ''interview (scheduled|invitation|request)|we('d|''
             @ '' would) like to (invite|interview)|your (application|resume)|''
             @ ''hiring manager|recruiter|talent acquisition|compensation|''
             @ ''benefits package|offer letter|background check|onboarding'',
           ''thank you for (applying|your interest)|unfortunately.*(not|''
             @ ''unable).*position''],
        senderPatterns =
          [''linkedin|indeed|glassdoor|monster|ziprecruiter|greenhouse|lever|''
             @ ''workday|taleo|icims|jobvite|careers?@|recruiting?@|hr@|talent@|''
             @ ''people@''],
        cat_keywords =
          [''job'', ''interview'', ''application'', ''resume'', ''offer'', ''position'',
           ''recruiter'', ''hiring'', ''salary'', ''benefits''],
        weight = dbl (11 / 10)\<rparr>,
      \<lparr>cat_id = ''marketing'', cat_name = ''Marketing/Ads'',
        patterns =
          [''unsubscribe|email preferences|manage (your )?subscriptions|''
             @ ''opt.out|sale|% off|'' @ backslash @ ''$'' @ backslash @ ''d+ off|promo(tion)? code|coupon|''
             @ ''limited time|act now|don't miss|exclusive (offer|deal|access)|''
             @ ''flash sale|clearance|shop now|buy now|order now|free shipping'',
           ''newsletter|weekly digest|monthly update|special offer|''
             @ ''member exclusive|subscriber''],
        senderPatterns =
          [''newsletter|promo|marketing|deals|offers|noreply|no-reply|news@|''
             @ ''info@|hello@|contact@''],
        cat_keywords =
          [''sale'', ''discount'', ''promo'', ''offer'', ''unsubscribe'', ''deal'',
           ''coupon'', ''newsletter'', ''exclusive'', ''limited''],
        weight = dbl (9 / 10)\<rparr>,
      \<lparr>cat_id = ''important'', cat_name = ''Important'',
        patterns =
          [''urgent|important|action required|immediate attention|deadline|''
             @ ''asap|critical|priority|time.sensitive|expires? (today|soon|''
             @ ''tomorrow)|respond by|reply by|final notice|last chance|''
             @ ''account (suspended|locked|compromised)'',
           ''please (respond|reply|confirm|review)|your input (needed|''
             @ ''required)|awaiting your''],
        senderPatterns =
          [],
        cat_keywords =
          [''urgent'', ''important'', ''deadline'', ''asap'', ''critical'',
           ''priority'', ''action'', ''required'', ''immediate''],
        weight = dbl (15 / 10)\<rparr>,
      \<lparr>cat_id = ''social'', cat_name = ''Social'',
        patterns =
          [''new connection|wants to connect|accepted your (invitation|''
             @ ''request)|endorsed you|commented on|liked your|mentioned you|''
             @ ''tagged you|sent you a message|new follower|friend request|''
             @ ''birthday|congratulations'',
           ''activity on your (post|photo|video)|someone (viewed|liked|''
             @ ''commented)''],
        senderPatterns =
          [''linkedin|facebook|twitter|x'' @ backslash @ ''.com|instagram|tiktok|snapchat|''
             @ ''pinterest|reddit|discord|slack|whatsapp|telegram|signal|messenger''],
        cat_keywords =
          [''connect'', ''follow'', ''like'', ''comment'', ''share'', ''mention'',
           ''tag'', ''friend'', ''profile'', ''notification''],
        weight = dbl (8 / 10)\<rparr>,
      \<lparr>cat_id = ''shopping'', cat_name = ''Shopping'',
        patterns =
          [''order (confirmation|shipped|delivered|placed)|your (order|package|''
             @ ''shipment|delivery)|tracking (number|information)|''
             @ ''estimated delivery|shipped via|out for delivery|''
             @ ''has been delivered|receipt for|thank you for your (purchase|''
             @ ''order)|return (label|request|policy)'',
           ''item in your cart|wishlist|back in stock|price drop''],
        senderPatterns =
          [''amazon|ebay|walmart|target|bestbuy|costco|macys|nordstrom|zappos|''
             @ ''etsy|shopify|stripe|square|orders?@|shipping@|tracking@''],
        cat_keywords =
          [''order'', ''shipping'', ''delivery'', ''tracking'', ''receipt'',
           ''purchase'', ''package'', ''cart'', ''checkout'', ''return''],
        weight = 1\<rparr>,
      \<lparr>cat_id = ''travel'', cat_name = ''Travel'',
        patterns =
          [''flight (confirmation|itinerary|booking|reservation)|''
             @ ''hotel (reservation|booking|confirmation)|booking confirmation|''
             @ ''check.in|check.out|boarding pass|e.?ticket|travel (itinerary|''
             @ ''confirmation)|car rental|airport|departure|arrival|gate'',
           ''your trip to|upcoming reservation|reservation confirmed''],
        senderPatterns =
          [''airlines?|hotels?'' @ backslash @ ''.com|airbnb|booking'' @ backslash @ ''.com|expedia|kayak|hopper|''
             @ ''tripadvisor|marriott|hilton|hyatt|delta|united|american|southwest|''
             @ ''jetblue|uber|lyft''],
        cat_keywords =
          [''flight'', ''hotel'', ''booking'', ''reservation'', ''travel'', ''trip'',
           ''itinerary'', ''boarding'', ''departure'', ''arrival''],
        weight = dbl (11 / 10)\<rparr>,
      \<lparr>cat_id = ''bills'', cat_name = ''Bills/Invoices'',
        patterns =
          [''invoice|bill|payment due|amount due|due date|account summary|''
             @ ''autopay|automatic payment|pay now|pay online|balance due|''
             @ ''current charges|monthly statement|utility bill|electric bill|''
             @ ''gas bill|water bill|internet bill|phone bill'',
           ''your .* bill is ready|bill available|payment reminder|past due''],
        senderPatterns =
          [''billing@|invoice@|payments?@|accounts?@|utility|electric|gas|''
             @ ''water|comcast|verizon|at&t|t-mobile|sprint|xfinity|spectrum''],
        cat_keywords =
          [''invoice'', ''bill'', ''payment'', ''due'', ''balance'', ''charges'',
           ''utility'', ''statement'', ''autopay'', ''overdue''],
        weight = dbl (11 / 10)\<rparr>
     ]"

text \<open>\<open>pattern.test(text)\<close> for the regex literal with this source text.\<close>

definition test :: "host \<Rightarrow> string \<Rightarrow> string \<Rightarrow> bool" where
  "test h pattern text =
     (case RegExp_new h pattern of Inl e \<Rightarrow> False | Inr matches \<Rightarrow> matches text)"

definition fullTextOf :: "Email \<Rightarrow> string" where
  "fullTextOf email =
     toLowerCase (join '' ''
       [orElse (subject email) [], orElse (snippet email) [],
        case body email of None \<Rightarrow> [] | Some b \<Rightarrow> substring0 2000 b])"

definition senderTextOf :: "Email \<Rightarrow> string" where
  "senderTextOf email =
     toLowerCase (join '' '' [from_address email, orElse (fromName email) []])"

text \<open>The three inner loops of \<open>classify\<close> for one category: its score.\<close>

definition scoreOf :: "host \<Rightarrow> string \<Rightarrow> string \<Rightarrow> CategoryPattern \<Rightarrow> rat" where
  "scoreOf h fullText senderText c =
     (let s1 = foldl (\<lambda>score pattern.
                  if test h pattern fullText then fadd score (fmul 2 (weight c)) else score)
                0 (patterns c);
          s2 = foldl (\<lambda>score pattern.
                  if test h pattern senderText then fadd score (fmul 3 (weight c)) else score)
                s1 (senderPatterns c)
      in foldl (\<lambda>score keyword.
                  if str_includes fullText (toLowerCase keyword)
                  then fadd score (fmul (1 / 2) (weight c)) else score)
           s2 (cat_keywords c))"

text \<open>What the keyword loop of one category adds to \<open>extractedKeywords\<close>.\<close>

definition extractKeywords :: "string \<Rightarrow> string list \<Rightarrow> CategoryPattern \<Rightarrow> string list" where
  "extractKeywords fullText extractedKeywords c =
     foldl (\<lambda>found keyword.
              if str_includes fullText (toLowerCase keyword) \<and> keyword \<notin> set found
              then found @ [keyword] else found)
       extractedKeywords (cat_keywords c)"

text \<open>\<open>Map.set\<close>: a known key keeps its place, a new key goes to the end.\<close>

fun mapSet :: "string \<Rightarrow> rat \<Rightarrow> (string \<times> rat) list \<Rightarrow> (string \<times> rat) list" where
  "mapSet k v [] = [(k, v)]"
| "mapSet k v ((k', v') # m) = (if k' = k then (k', v) # m else (k', v') # mapSet k v m)"

definition genericScores :: "host \<Rightarrow> Email \<Rightarrow> (string \<times> rat) list" where
  "genericScores h email =
     foldl (\<lambda>scores c.
              mapSet (cat_id c) (scoreOf h (fullTextOf email) (senderTextOf email) c) scores)
       [] categoryPatterns"

text \<open>The scores after the special handling of \<open>hasUnsubscribe\<close>.\<close>

definition finalScores :: "host \<Rightarrow> Email \<Rightarrow> (string \<times> rat) list" where
  "finalScores h email =
     (let scores = genericScores h email in
      if hasUnsubscribe email then
        let marketingScore = (case map_of scores ''marketing'' of None \<Rightarrow> 0 | Some v \<Rightarrow> v)
        in mapSet ''marketing'' (fadd marketingScore 1) scores
      else scores)"

fun findBest :: "(string \<times> rat) list \<Rightarrow> string \<times> rat \<Rightarrow> string \<times> rat" where
  "findBest [] best = best"
| "findBest ((cat, score) # rest) (bestCategory, bestScore) =
     (if score > bestScore then findBest rest (cat, score)
      else findBest rest (bestCategory, bestScore))"

definition urgentPatterns :: "string list" where
  "urgentPatterns =
     [''urgent|important|critical|priority|immediate|asap|action required|deadline'',
      ''please (respond|reply|confirm)|awaiting your|your input'']"

definition calculateImportance :: "host \<Rightarrow> Email \<Rightarrow> string \<Rightarrow> rat \<Rightarrow> rat" where
  "calculateImportance h email cat categoryScore =
     (let fullText = toLowerCase (join '' ''
            [case subject email of None \<Rightarrow> [] | Some s \<Rightarrow> s,
             case snippet email of None \<Rightarrow> [] | Some s \<Rightarrow> s]);
          i1 = foldl (\<lambda>imp pattern.
                  if test h pattern fullText then fadd imp (dbl (2 / 10)) else imp)
                (1 / 2) urgentPatterns;
          i2 = (if cat = ''important'' then fadd i1 (dbl (3 / 10))
                else if cat = ''financial'' then fadd i1 (dbl (15 / 100))
                else if cat = ''bills'' then fadd i1 (dbl (1 / 10))
                else if cat = ''travel'' then fadd i1 (dbl (1 / 10))
                else if cat = ''marketing'' then fsub i1 (dbl (2 / 10))
                else if cat = ''social'' then fsub i1 (dbl (1 / 10))
                else i1);
          i3 = (if categoryScore > 5 then fadd i2 (dbl (1 / 10)) else i2)
      in max 0 (min 1 i3))"

record ClassificationResult =
  res_category :: string
  confidence :: rat
  res_importance :: rat
  res_keywords :: "string list"

definition classify :: "host \<Rightarrow> Email \<Rightarrow> ClassificationResult" where
  "classify h email =
     (case findBest (finalScores h email) (''uncategorized'', 0) of
        (bestCategory, bestScore) \<Rightarrow>
          \<lparr>res_category = bestCategory,
           confidence = min 1 (fdiv bestScore 10),
           res_importance = calculateImportance h email bestCategory bestScore,
           res_keywords =
             take 10 (foldl (extractKeywords (fullTextOf email)) [] categoryPatterns)\<rparr>)"

text \<open>The score that \<open>classify\<close> computes for a category on a message.\<close>

abbreviation emailScore :: "host \<Rightarrow> Email \<Rightarrow> CategoryPattern \<Rightarrow> rat" where
  "emailScore h email c \<equiv> scoreOf h (fullTextOf email) (senderTextOf email) c"

text \<open>
  The score of a category in the words of the documentation, in exact arithmetic: twice the
  weight for each content pattern that matches the text, three times the weight for each
  sender pattern that matches the sender, half the weight for each keyword that is present
  in the text.
\<close>

definition contentMatches :: "host \<Rightarrow> Email \<Rightarrow> CategoryPattern \<Rightarrow> nat" where
  "contentMatches h email c =
     length (filter (\<lambda>pattern. test h pattern (fullTextOf email)) (patterns c))"

definition senderMatches :: "host \<Rightarrow> Email \<Rightarrow> CategoryPattern \<Rightarrow> nat" where
  "senderMatches h email c =
     length (filter (\<lambda>pattern. test h pattern (senderTextOf email)) (senderPatterns c))"

definition keywordHits :: "Email \<Rightarrow> CategoryPattern \<Rightarrow> nat" where
  "keywordHits email c =
     length (filter (\<lambda>keyword. str_includes (fullTextOf email) (toLowerCase keyword))
               (cat_keywords c))"

definition exactScore :: "host \<Rightarrow> Email \<Rightarrow> CategoryPattern \<Rightarrow> rat" where
  "exactScore h email c =
     (2 * of_nat (contentMatches h email c) + 3 * of_nat (senderMatches h email c)
        + of_nat (keywordHits email c) / 2) * weight c"

section \<open>Classification of new mail\<close>

definition getUnclassifiedEmails :: "string \<Rightarrow> State \<Rightarrow> Email list" where
  "getUnclassifiedEmails acct st =
     sort_by (\<lambda>a b. date b \<le> date a)
       (filter (\<lambda>e. accountId e = acct \<and> category e = ''uncategorized'') (emails st))"

definition updateEmailMetadata :: "string \<Rightarrow> rat \<Rightarrow> string list \<Rightarrow> State \<Rightarrow> State" where
  "updateEmailMetadata eid imp kws st =
     st\<lparr>emails :=
          map (\<lambda>e. if email_id e = eid then e\<lparr>importance := imp, email_keywords := kws\<rparr> else e)
            (emails st)\<rparr>"

fun classifyEach :: "host \<Rightarrow> Email list \<Rightarrow> State \<Rightarrow> State" where
  "classifyEach h [] st = st"
| "classifyEach h (email # rest) st =
     (let classification = classify h email;
          st1 = updateEmailCategory (email_id email) (res_category classification) st;
          st2 = updateEmailMetadata (email_id email) (res_importance classification)
                  (res_keywords classification) st1
      in classifyEach h rest st2)"

definition classifyNewEmails :: "host \<Rightarrow> string \<Rightarrow> State \<Rightarrow> State" where
  "classifyNewEmails h acct st = classifyEach h (getUnclassifiedEmails acct st) st"

text \<open>
  The two ways in which the code writes a category: the classification of the new mail
  of an account, and the rule pass over a message.
\<close>

datatype operation = ClassifyNewEmails string | ApplyRulesToEmail Email

fun perform :: "host \<Rightarrow> operation \<Rightarrow> State \<Rightarrow> State" where
  "perform h (ClassifyNewEmails acct) st = classifyNewEmails h acct st"
| "perform h (ApplyRulesToEmail email) st = snd (applyRulesToEmail h email st)"

definition performAll :: "host \<Rightarrow> operation list \<Rightarrow> State \<Rightarrow> State" where
  "performAll h ops st = foldl (\<lambda>s operation. perform h operation s) st ops"

definition allowedCategories :: "string list" where
  "allowedCategories = map cat_id categoryPatterns @ [''uncategorized'']"

section \<open>A host for the examples\<close>

text \<open>
  A small host on which the definitions can be run. A pattern is malformed when it is
  \<open>(\<close> or \<open>[\<close>; any other pattern is read as alternatives separated by \<open>|\<close>, each of
  them a literal that is looked for anywhere in the text, whatever the case: groups,
  classes and quantifiers are not interpreted. \<open>Number\<close> reads decimal digits, dates are
  read from a table, every remote call returns.
\<close>

fun splitOn :: "char \<Rightarrow> string \<Rightarrow> string list" where
  "splitOn d [] = [[]]"
| "splitOn d (c # cs) =
     (if c = d then [] # splitOn d cs
      else (case splitOn d cs of [] \<Rightarrow> [[c]] | w # ws \<Rightarrow> (c # w) # ws))"

definition exampleRegExp :: "string \<Rightarrow> exn + (string \<Rightarrow> bool)" where
  "exampleRegExp src =
     (if src = ''('' \<or> src = ''['' then Inl SyntaxError
      else Inr (\<lambda>s. list_ex (\<lambda>alt. str_includes (toLowerCase s) (toLowerCase alt))
                     (splitOn CHR ''|'' src)))"

definition exampleNumber :: "string \<Rightarrow> jsnum" where
  "exampleNumber s =
     (if list_all (\<lambda>c. CHR ''0'' \<le> c \<and> c \<le> CHR ''9'') s
      then Fin (of_nat (foldl (\<lambda>n c. 10 * n + (of_char c - 48)) 0 s))
      else NaN)"

definition exampleDates :: "(string \<times> int) list" where
  "exampleDates =
     [(''2024-01-01T00:00:00.000Z'', 1704067200000),
      (''2024-01-02T00:00:00.000Z'', 1704153600000),
      (''2024-01-03T00:00:00.000Z'', 1704240000000)]"

definition exampleHost :: host where
  "exampleHost =
     \<lparr>RegExp_new = exampleRegExp, Number_str = exampleNumber,
      Date_getTime = map_of exampleDates, accepts = (\<lambda>c. True),
      now_sql = ''2024-02-01 00:00:00'', now_iso = ''2024-02-01T00:00:00.000Z'',
      nanoid = ''V1StGXR8_Z5jdHi6B-myT''\<rparr>"

definition exampleEmail :: Email where
  "exampleEmail =
     \<lparr>email_id = ''e1'', accountId = ''a1'', from_address = ''alerts@bank.com'',
      fromName = None, to_addresses = Addresses [''me@example.org''],
      subject = Some ''Your statement is ready'', snippet = Some ''Your statement is ready'',
      body = None, date = ''2024-01-02T00:00:00.000Z'', isRead = False, labels = [],
      category = ''uncategorized'', importance = 1 / 2, email_keywords = [], attachments = [],
      email_size = 0, unsubscribeLink = None, hasUnsubscribe = False\<rparr>"

definition bankRule :: Rule where
  "bankRule =
     \<lparr>rule_id = ''r1'', name = ''Bank mail'', enabled = True,
      conditions =
        [\<lparr>cond_field = ''from'', cond_operator = ''contains'', cond_value = ''@bank.com''\<rparr>],
      actions = [\<lparr>action_type = ''categorize'', action_value = Some ''financial''\<rparr>],
      provider = None, priority = 0, hit_count = 0, last_hit = None,
      created_at = ''2024-01-01 00:00:00'', updated_at = ''2024-01-01 00:00:00''\<rparr>"

definition disableRule :: RuleUpdates where
  "disableRule =
     \<lparr>upd_id = None, upd_name = None, upd_enabled = Some False, upd_conditions = None,
      upd_actions = None, upd_provider = None, upd_priority = None, upd_hitCount = None,
      upd_lastHit = None\<rparr>"

definition exampleState :: State where
  "exampleState =
     \<lparr>emails = [exampleEmail], rules = [bankRule], providers = [], requests = []\<rparr>"

definition newsletterEmail :: Email where
  "newsletterEmail =
     exampleEmail\<lparr>email_id := ''e3'', from_address := ''news@shop.example'',
       unsubscribeLink := Some ''https://shop.example/unsubscribe'', hasUnsubscribe := True\<rparr>"

definition cleanupState :: State where
  "cleanupState =
     \<lparr>emails = [exampleEmail, newsletterEmail], rules = [],
      providers = [], requests = []\<rparr>"

definition scanEmail :: Email where
  "scanEmail =
     exampleEmail\<lparr>email_id := ''e4'', date := ''2024-01-03T00:00:00.000Z'',
       attachments :=
         [\<lparr>att_id = ''t1'', filename = ''scan.pdf'', att_size = Some 6000000\<rparr>,
          \<lparr>att_id = ''t2'', filename = ''note.txt'', att_size = None\<rparr>]\<rparr>"

definition attachmentState :: State where
  "attachmentState =
     \<lparr>emails = [exampleEmail, scanEmail], rules = [], providers = [], requests = []\<rparr>"

definition pipeEmailA :: Email where
  "pipeEmailA =
     exampleEmail\<lparr>email_id := ''p1'', from_address := ''news@shop.example'',
       subject := Some ''Sale|news@shop.example'', snippet := Some ''Hello'',
       date := ''2024-01-03T00:00:00.000Z''\<rparr>"

definition pipeEmailB :: Email where
  "pipeEmailB =
     exampleEmail\<lparr>email_id := ''p2'', from_address := ''news@shop.example'',
       subject := Some ''Sale'', snippet := Some ''news@shop.example|Hello'',
       date := ''2024-01-01T00:00:00.000Z''\<rparr>"

definition pipeState :: State where
  "pipeState = \<lparr>emails = [pipeEmailA, pipeEmailB], rules = [], providers = [], requests = []\<rparr>"

definition dealsEmailOld :: Email where
  "dealsEmailOld =
     exampleEmail\<lparr>email_id := ''d1'', from_address := ''News@Shop.example'',
       subject := Some '' Weekly Deals '', snippet := Some ''Big savings inside'',
       date := ''2024-01-01T00:00:00.000Z''\<rparr>"

definition dealsEmailNew :: Email where
  "dealsEmailNew =
     exampleEmail\<lparr>email_id := ''d2'', from_address := ''news@shop.example'',
       subject := Some ''weekly deals'', snippet := Some ''big savings inside'',
       date := ''2024-01-03T00:00:00.000Z''\<rparr>"

definition duplicateState :: State where
  "duplicateState =
     \<lparr>emails = [dealsEmailOld, exampleEmail, dealsEmailNew], rules = [], providers = [],
      requests = []\<rparr>"

definition emptyEmail :: Email where
  "emptyEmail = exampleEmail\<lparr>from_address := [], subject := None, snippet := None\<rparr>"

text \<open>A host whose link handler refuses every link.\<close>

definition refusingHost :: host where
  "refusingHost = exampleHost\<lparr>accepts := (\<lambda>c. False)\<rparr>"

text \<open>
  Two enabled rules of equal priority, \<open>rA\<close> created a day before \<open>rC\<close>, and a message
  that only \<open>rA\<close> matches.
\<close>

definition ruleA :: Rule where
  "ruleA = bankRule\<lparr>rule_id := ''rA'', name := ''Bank mail''\<rparr>"

definition ruleC :: Rule where
  "ruleC =
     \<lparr>rule_id = ''rC'', name = ''Statements'', enabled = True,
      conditions =
        [\<lparr>cond_field = ''subject'', cond_operator = ''contains'', cond_value = ''statement''\<rparr>],
      actions = [\<lparr>action_type = ''markRead'', action_value = None\<rparr>],
      provider = None, priority = 0, hit_count = 0, last_hit = None,
      created_at = ''2024-01-02 00:00:00'', updated_at = ''2024-01-02 00:00:00''\<rparr>"

definition helloEmail :: Email where
  "helloEmail =
     exampleEmail\<lparr>email_id := ''e5'', subject := Some ''Hello'', snippet := Some ''Hello''\<rparr>"

definition orderState :: State where
  "orderState =
     \<lparr>emails = [exampleEmail, helloEmail], rules = [ruleA, ruleC], providers = [],
      requests = []\<rparr>"

text \<open>A message whose three attachments add up to more than \<open>2 ^ 53\<close> bytes.\<close>

definition hugeEmail :: Email where
  "hugeEmail =
     exampleEmail\<lparr>email_id := ''e6'',
       attachments :=
         [\<lparr>att_id = ''t3'', filename = ''disk.img'', att_size = Some 9007199254740992\<rparr>,
          \<lparr>att_id = ''t4'', filename = ''a.txt'', att_size = Some 1\<rparr>,
          \<lparr>att_id = ''t5'', filename = ''b.txt'', att_size = Some 1\<rparr>]\<rparr>"

definition hugeState :: State where
  "hugeState = \<lparr>emails = [hugeEmail], rules = [], providers = [], requests = []\<rparr>"

text \<open>
  Messages for the classifier: one that two content patterns, one sender pattern and one
  keyword of \<open>financial\<close> match; one on which \<open>hr\<close> and \<open>travel\<close> score the same; one
  that \<open>marketing\<close> wins only with the bonus for the unsubscribe link.
\<close>

definition statementEmail :: Email where
  "statementEmail =
     exampleEmail\<lparr>email_id := ''e7'', subject := Some ''Your account statement is ready'',
       snippet := Some ''Your account statement is ready''\<rparr>"

definition tieEmail :: Email where
  "tieEmail =
     exampleEmail\<lparr>email_id := ''e8'', from_address := ''someone@example.org'',
       subject := Some ''Offer'', snippet := Some ''A trip''\<rparr>"

definition bonusEmail :: Email where
  "bonusEmail =
     newsletterEmail\<lparr>email_id := ''e9'', subject := Some ''Statement attached'',
       snippet := Some ''Statement attached''\<rparr>"

text \<open>
  The invariant of the category column, and the rules whose \<open>categorize\<close> actions keep it.
\<close>

definition categoriesAllowed :: "State \<Rightarrow> bool" where
  "categoriesAllowed st = (\<forall>e \<in> set (emails st). category e \<in> set allowedCategories)"

definition actionAllowed :: "RuleAction \<Rightarrow> bool" where
  "actionAllowed a =
     (action_type a = ''categorize'' \<longrightarrow>
        (\<exists>v. action_value a = Some v \<and> v \<in> set allowedCategories))"

definition rulesAllowed :: "State \<Rightarrow> bool" where
  "rulesAllowed st = (\<forall>r \<in> set (rules st). \<forall>a \<in> set (actions r). actionAllowed a)"

definition receiptsRule :: Rule where
  "receiptsRule =
     bankRule\<lparr>actions := [\<lparr>action_type = ''categorize'', action_value = Some ''receipts''\<rparr>]\<rparr>"

definition receiptsState :: State where
  "receiptsState = exampleState\<lparr>rules := [receiptsRule]\<rparr>"

section \<open>Conditions fail closed\<close>

lemma fieldValue_unknown: "f \<notin> set knownFields \<Longrightarrow> fieldValue email f = None"
  by (simp add: fieldValue_def knownFields_def)

lemma matchesCondition_failClosed:
  assumes "failClosed h c"
  shows "\<not> matchesCondition h email c"
proof (cases "fieldValue email (cond_field c)")
  case None
  then show ?thesis by (simp add: matchesCondition_def)
next
  case (Some v)
  then have known: "cond_field c \<in> set knownFields"
    using fieldValue_unknown by force
  from assms known consider
      (rx) "cond_operator c = ''regex''" "isl (RegExp_new h (cond_value c))"
    | (op) "cond_operator c \<notin> set knownOperators"
    by (auto simp: failClosed_def)
  then show ?thesis
  proof cases
    case rx
    then show ?thesis
      by (auto simp: matchesCondition_def Some Let_def split: sum.splits)
  next
    case op
    then show ?thesis
      by (simp add: matchesCondition_def Some Let_def knownOperators_def)
  qed
qed

lemma matchesConditions_all:
  "matchesConditions h email cs = (\<forall>c \<in> set cs. matchesCondition h email c)"
  by (induction cs) auto

text \<open>
  C5. \<open>matchesCondition\<close> and \<open>matchesConditions\<close> are total functions into \<^typ>\<open>bool\<close>:
  the only exception of the source, the one \<open>new RegExp\<close> raises, is the \<open>Inl\<close> branch that
  the \<open>catch\<close> turns into \<open>false\<close>. For every message, a condition that is a regex with a
  malformed pattern, or has an unrecognized field or operator, evaluates to false, and a
  rule that contains such a condition matches no message.
\<close>

theorem C5_conditions_fail_closed:
  "(failClosed h c \<longrightarrow> matchesCondition h email c = False)
   \<and> ((\<exists>c \<in> set cs. failClosed h c) \<longrightarrow> matchesConditions h email cs = False)"
  using matchesCondition_failClosed matchesConditions_all by blast

theorem C5_conditions_fail_closed_witness:
  "failClosed exampleHost \<lparr>cond_field = ''subject'', cond_operator = ''regex'', cond_value = ''(''\<rparr>
   \<and> matchesCondition exampleHost exampleEmail
        \<lparr>cond_field = ''subject'', cond_operator = ''regex'', cond_value = ''(''\<rparr> = False
   \<and> (\<exists>c \<in> set [\<lparr>cond_field = ''from'', cond_operator = ''contains'', cond_value = ''bank''\<rparr>,
                  \<lparr>cond_field = ''sender'', cond_operator = ''contains'', cond_value = ''bank''\<rparr>].
         failClosed exampleHost c)
   \<and> matchesConditions exampleHost exampleEmail
        [\<lparr>cond_field = ''from'', cond_operator = ''contains'', cond_value = ''bank''\<rparr>,
         \<lparr>cond_field = ''sender'', cond_operator = ''contains'', cond_value = ''bank''\<rparr>] = False"
proof -
  let ?c = "\<lparr>cond_field = ''subject'', cond_operator = ''regex'', cond_value = ''(''\<rparr>"
  let ?cs = "[\<lparr>cond_field = ''from'', cond_operator = ''contains'', cond_value = ''bank''\<rparr>,
              \<lparr>cond_field = ''sender'', cond_operator = ''contains'', cond_value = ''bank''\<rparr>]"
  have a: "failClosed exampleHost ?c"
    by (simp add: failClosed_def exampleHost_def exampleRegExp_def)
  have b: "\<exists>c \<in> set ?cs. failClosed exampleHost c"
    by (simp add: failClosed_def knownFields_def)
  from a b C5_conditions_fail_closed [of exampleHost ?c exampleEmail ?cs]
  show ?thesis by blast
qed

section \<open>The order of evaluation\<close>

lemma mset_insort_by: "mset (insort_by le x xs) = add_mset x (mset xs)"
  by (induction xs) auto

lemma mset_sort_by: "mset (sort_by le xs) = mset xs"
  by (induction xs) (auto simp: sort_by_def mset_insort_by)

lemma set_insort_by: "set (insort_by le x xs) = insert x (set xs)"
  by (induction xs) auto

lemma set_sort_by: "set (sort_by le xs) = set xs"
  by (induction xs) (auto simp: sort_by_def set_insort_by)

lemma sorted_insort_by:
  assumes tot: "\<And>a b. le a b \<or> le b a" and tr: "\<And>a b c. le a b \<Longrightarrow> le b c \<Longrightarrow> le a c"
  shows "sorted_wrt le xs \<Longrightarrow> sorted_wrt le (insort_by le x xs)"
proof (induction xs)
  case Nil
  then show ?case by simp
next
  case (Cons y ys)
  show ?case
  proof (cases "le x y")
    case True
    with Cons.prems tr show ?thesis by auto
  next
    case False
    with tot have "le y x" by blast
    with Cons False show ?thesis by (auto simp: set_insort_by)
  qed
qed

lemma sorted_sort_by:
  assumes tot: "\<And>a b. le a b \<or> le b a" and tr: "\<And>a b c. le a b \<Longrightarrow> le b c \<Longrightarrow> le a c"
  shows "sorted_wrt le (sort_by le xs)"
proof (induction xs)
  case Nil
  then show ?case by (simp add: sort_by_def)
next
  case (Cons x xs)
  have "sort_by le (x # xs) = insort_by le x (sort_by le xs)"
    by (simp add: sort_by_def)
  with Cons sorted_insort_by [of le, OF tot tr] show ?case by simp
qed

lemma insort_by_front: "sorted_wrt le (x # xs) \<Longrightarrow> insort_by le x xs = x # xs"
  by (cases xs) auto

lemma sort_by_sorted: "sorted_wrt le xs \<Longrightarrow> sort_by le xs = xs"
proof (induction xs)
  case Nil
  then show ?case by (simp add: sort_by_def)
next
  case (Cons x xs)
  then have "sort_by le xs = xs" by simp
  then have "sort_by le (x # xs) = insort_by le x xs"
    by (simp add: sort_by_def)
  with Cons.prems insort_by_front show ?case by metis
qed

lemma ruleOrder_total: "ruleOrder a b \<or> ruleOrder b a"
  by (auto simp: ruleOrder_def)

lemma ruleOrder_trans: "ruleOrder a b \<Longrightarrow> ruleOrder b c \<Longrightarrow> ruleOrder a c"
  by (auto simp: ruleOrder_def)

lemma sorted_getRules: "sorted_wrt ruleOrder (getRules st)"
  unfolding getRules_def
  using ruleOrder_total ruleOrder_trans by (rule sorted_sort_by [of ruleOrder])

lemma evaluationOrder_eq: "evaluationOrder st = filter enabled (getRules st)"
proof -
  have "sorted_wrt ruleOrder (filter enabled (getRules st))"
    by (simp add: sorted_getRules sorted_wrt_filter)
  then have "sorted_wrt (\<lambda>a b. priority b - priority a \<le> 0) (filter enabled (getRules st))"
    by (rule sorted_wrt_mono_rel [rotated]) (auto simp: ruleOrder_def)
  then show ?thesis
    by (simp add: evaluationOrder_def jsSort_def sort_by_sorted)
qed

lemma applyLoop_actions:
  "fst (applyLoop h email rs sofar st) =
     sofar @ concat (map actions (filter (\<lambda>r. matchesConditions h email (conditions r)) rs))"
  by (induction rs arbitrary: sofar st) (auto simp: Let_def)

text \<open>
  What the loop of \<open>applyRulesToEmail\<close> does. It runs over \<open>evaluationOrder\<close>: the enabled
  rules of the store and no other rule, each as often as the store holds it, in descending
  priority and, among rules of equal priority, in ascending \<open>created_at\<close>. The loop
  visits all of it: the returned list is the concatenation, in that order, of the actions
  of every rule whose conditions all match.
\<close>

lemma applyRulesToEmail_order:
  "mset (evaluationOrder st) = mset (filter enabled (rules st))
   \<and> sorted_wrt (\<lambda>a b. priority a > priority b
                   \<or> (priority a = priority b \<and> created_at a \<le> created_at b))
        (evaluationOrder st)
   \<and> fst (applyRulesToEmail h email st) =
       concat (map actions
         (filter (\<lambda>r. matchesConditions h email (conditions r)) (evaluationOrder st)))"
proof -
  have "mset (evaluationOrder st) = mset (filter enabled (rules st))"
    by (simp add: evaluationOrder_eq getRules_def mset_sort_by)
  moreover have "sorted_wrt ruleOrder (evaluationOrder st)"
    by (simp add: evaluationOrder_eq sorted_getRules sorted_wrt_filter)
  then have "sorted_wrt (\<lambda>a b. priority a > priority b
                   \<or> (priority a = priority b \<and> created_at a \<le> created_at b))
        (evaluationOrder st)"
    by (simp add: ruleOrder_def [abs_def])
  moreover have "fst (applyRulesToEmail h email st) =
       concat (map actions
         (filter (\<lambda>r. matchesConditions h email (conditions r)) (evaluationOrder st)))"
    by (simp add: applyRulesToEmail_def applyLoop_actions)
  ultimately show ?thesis by blast
qed

text \<open>
  C1 fails on the code: rules of equal priority are not evaluated in the order of their
  creation. \<open>getRules\<close> orders them by \<open>created_at\<close>, but \<open>saveRule\<close> replaces the whole
  row without that column, which then takes its default, the time of the write; and
  \<open>applyRulesToEmail\<close> saves every rule that matches. Here \<open>rA\<close> and \<open>rC\<close> are enabled and
  of equal priority, \<open>rA\<close> created a day before \<open>rC\<close>. The message \<open>e1\<close> matches both and
  gets the action of \<open>rA\<close> first. After one pass over a message that only \<open>rA\<close> matches,
  the order of evaluation is \<open>rC\<close>, \<open>rA\<close>, and the same message \<open>e1\<close> gets the action of
  \<open>rC\<close> first.
\<close>

theorem C1_creation_order_lost:
  "map rule_id (rules orderState) = [''rA'', ''rC'']
   \<and> map created_at (rules orderState) = [''2024-01-01 00:00:00'', ''2024-01-02 00:00:00'']
   \<and> map priority (rules orderState) = [0, 0]
   \<and> map rule_id (evaluationOrder orderState) = [''rA'', ''rC'']
   \<and> map action_type (fst (applyRulesToEmail exampleHost exampleEmail orderState))
        = [''categorize'', ''markRead'']
   \<and> map rule_id
        (evaluationOrder (snd (applyRulesToEmail exampleHost helloEmail orderState)))
        = [''rC'', ''rA'']
   \<and> map action_type
        (fst (applyRulesToEmail exampleHost exampleEmail
                (snd (applyRulesToEmail exampleHost helloEmail orderState))))
        = [''markRead'', ''categorize'']"
  by code_simp

text \<open>
  C2, on the scenario of the specification: a fresh rule on \<open>from contains @bank.com\<close> and
  a message from \<open>alerts@bank.com\<close>. The action is returned; the rule's stored hit count
  is still 0 and its \<open>last_hit\<close> still NULL, because \<open>saveRule\<close> writes neither column.
\<close>

theorem C2_hit_count_not_written:
  "fst (applyRulesToEmail exampleHost exampleEmail exampleState) =
     [\<lparr>action_type = ''categorize'', action_value = Some ''financial''\<rparr>]
   \<and> map hit_count (rules exampleState) = [0]
   \<and> map hit_count (rules (snd (applyRulesToEmail exampleHost exampleEmail exampleState))) = [0]
   \<and> map last_hit (rules (snd (applyRulesToEmail exampleHost exampleEmail exampleState))) = [None]"
  by code_simp

section \<open>Rules that do not exist\<close>

lemma find_None_filter: "find P xs = None \<Longrightarrow> filter (\<lambda>x. \<not> P x) xs = xs"
  by (induction xs) (auto split: if_splits)

lemma db_deleteRule_missing: "getRule rid st = None \<Longrightarrow> db_deleteRule rid st = st"
  by (simp add: getRule_def db_deleteRule_def find_None_filter)

lemma getRule_missing_example: "getRule ''missing'' exampleState = None"
  by (simp add: getRule_def exampleState_def bankRule_def)

text \<open>
  C6, as stated, fails for \<open>deleteRule\<close>: on an id that the store does not hold it returns
  normally. It passes the id to \<open>DELETE FROM rules WHERE id = ?\<close> without looking it up.
\<close>

theorem C6_deleteRule_missing_returns:
  "getRule ''missing'' exampleState = None
   \<and> deleteRule ''missing'' exampleState = (Inr (), exampleState)"
  by (simp add: getRule_missing_example db_deleteRule_missing deleteRule_def)

text \<open>
  C6, amended. For a rule id that the store does not hold, \<open>updateRule\<close> and \<open>testRule\<close>
  throw \<open>Rule not found\<close>, \<open>deleteRule\<close> returns without an error, and all three leave
  the whole state, the stored rules among it, as it was.
\<close>

theorem C6_rule_not_found:
  assumes "getRule ruleId st = None"
  shows "updateRule h ruleId updates st = (Inl RuleNotFound, st)
         \<and> testRule h ruleId st = (Inl RuleNotFound, st)
         \<and> deleteRule ruleId st = (Inr (), st)"
  using assms by (simp add: updateRule_def testRule_def deleteRule_def db_deleteRule_missing)

theorem C6_rule_not_found_witness:
  "getRule ''missing'' exampleState = None
   \<and> updateRule exampleHost ''missing'' disableRule exampleState = (Inl RuleNotFound, exampleState)
   \<and> testRule exampleHost ''missing'' exampleState = (Inl RuleNotFound, exampleState)
   \<and> deleteRule ''missing'' exampleState = (Inr (), exampleState)"
  using getRule_missing_example
    C6_rule_not_found [of "''missing''" exampleState exampleHost disableRule]
  by simp

section \<open>The dry run\<close>

lemma recentEmails_window:
  "0 < n \<Longrightarrow> recentEmails n None st = take n (sort_by (\<lambda>a b. date b \<le> date a) (emails st))"
  by (simp add: recentEmails_def getEmails_def truthy_def)

lemma getRule_r1_example: "getRule ''r1'' exampleState = Some bankRule"
  by (simp add: getRule_def exampleState_def bankRule_def)

text \<open>
  C7. For a rule of the store, \<open>testRule\<close> returns, and the state it leaves is the state it
  found: no call was added to \<open>requests\<close>, no rule and no email changed. The window is the
  1000 newest emails by \<open>date\<close>; \<open>totalMatches\<close> counts the emails of the window that match
  the rule's conditions, and \<open>matchingEmails\<close> are the first ten of them, so at most 10.
\<close>

theorem C7_testRule_dry_run:
  assumes "getRule ruleId st = Some rule"
  shows "\<exists>res. testRule h ruleId st = (Inr res, st)
           \<and> totalMatches res =
               length (filter (\<lambda>e. matchesConditions h e (conditions rule))
                 (recentEmails 1000 None st))
           \<and> matchingEmails res =
               take 10 (filter (\<lambda>e. matchesConditions h e (conditions rule))
                 (recentEmails 1000 None st))
           \<and> length (matchingEmails res) \<le> 10
           \<and> recentEmails 1000 None st =
               take 1000 (sort_by (\<lambda>a b. date b \<le> date a) (emails st))"
  using assms by (simp add: testRule_def recentEmails_window Let_def)

theorem C7_testRule_dry_run_witness:
  "getRule ''r1'' exampleState = Some bankRule
   \<and> (\<exists>res. testRule exampleHost ''r1'' exampleState = (Inr res, exampleState)
           \<and> totalMatches res =
               length (filter (\<lambda>e. matchesConditions exampleHost e (conditions bankRule))
                 (recentEmails 1000 None exampleState))
           \<and> matchingEmails res =
               take 10 (filter (\<lambda>e. matchesConditions exampleHost e (conditions bankRule))
                 (recentEmails 1000 None exampleState))
           \<and> length (matchingEmails res) \<le> 10
           \<and> recentEmails 1000 None exampleState =
               take 1000 (sort_by (\<lambda>a b. date b \<le> date a) (emails exampleState)))"
  using getRule_r1_example
    C7_testRule_dry_run [of "''r1''" exampleState bankRule exampleHost]
  by simp

section \<open>Bulk unsubscribe\<close>

lemma linkOf_requests [simp]: "linkOf (st\<lparr>requests := r\<rparr>) i = linkOf st i"
  by (simp add: linkOf_def getEmail_def)

lemma unsubscribeLoop_result:
  assumes "\<forall>i \<in> set ids. \<forall>l. linkOf st i = Some l \<and> l \<noteq> [] \<longrightarrow> accepts h (OpenExternal l)"
  shows "unsubscribeLoop h ids counts st =
     (Inr \<lparr>processed = processed counts + length (filter (\<lambda>i. truthy (linkOf st i)) ids),
           skipped = skipped counts + length (filter (\<lambda>i. \<not> truthy (linkOf st i)) ids),
           links = links counts
             @ map (\<lambda>i. orElse (linkOf st i) []) (filter (\<lambda>i. truthy (linkOf st i)) ids)\<rparr>,
      st\<lparr>requests := requests st
             @ map (\<lambda>i. OpenExternal (orElse (linkOf st i) []))
                 (filter (\<lambda>i. truthy (linkOf st i)) ids)\<rparr>)"
  using assms
proof (induction ids arbitrary: counts st)
  case Nil
  then show ?case by simp
next
  case (Cons i ids)
  show ?case
  proof (cases "linkOf st i")
    case None
    with Cons show ?thesis by (simp add: truthy_def)
  next
    case (Some l)
    show ?thesis
    proof (cases "l = []")
      case True
      with Some Cons show ?thesis by (simp add: truthy_def)
    next
      case False
      with Some Cons.prems have ok: "accepts h (OpenExternal l)" by simp
      let ?st' = "st\<lparr>requests := requests st @ [OpenExternal l]\<rparr>"
      have pre: "\<forall>i \<in> set ids. \<forall>l. linkOf ?st' i = Some l \<and> l \<noteq> [] \<longrightarrow> accepts h (OpenExternal l)"
        using Cons.prems by simp
      from Cons.IH [OF pre] Some False ok show ?thesis
        by (simp add: truthy_def orElse_def remote_def)
    qed
  qed
qed

text \<open>
  C8, as stated, fails when the link handler refuses a link: \<open>shell.openExternal\<close> is
  awaited outside any \<open>try\<close>, so the whole call is rejected and returns no counts.
\<close>

theorem C8_handler_refuses:
  "linkOf cleanupState ''e3'' = Some ''https://shop.example/unsubscribe''
   \<and> fst (bulkUnsubscribe refusingHost [''e1'', ''e3''] cleanupState) =
       Inl (RemoteError (OpenExternal ''https://shop.example/unsubscribe''))"
  by code_simp

text \<open>
  C8, amended. Let every stored unsubscribe link of the ids be null or a non-empty string,
  as the providers store it, and let the link handler accept every link that is opened.
  Then \<open>bulkUnsubscribe\<close> returns counts, \<open>processed + skipped\<close> is the number of ids,
  \<open>processed\<close> counts exactly the ids whose stored message has a non-null link, every
  other id (also an id without a stored message) is counted \<open>skipped\<close>, and \<open>links\<close> are
  the links of the processed ids, in the order of the ids.
\<close>

theorem C8_bulkUnsubscribe_counts:
  assumes "\<forall>i \<in> set ids. \<forall>l. linkOf st i = Some l \<longrightarrow> l \<noteq> [] \<and> accepts h (OpenExternal l)"
  shows "\<exists>res. fst (bulkUnsubscribe h ids st) = Inr res
           \<and> processed res + skipped res = length ids
           \<and> processed res = length (filter (\<lambda>i. linkOf st i \<noteq> None) ids)
           \<and> skipped res = length (filter (\<lambda>i. linkOf st i = None) ids)
           \<and> links res = List.map_filter (linkOf st) ids"
proof -
  have acc: "\<forall>i \<in> set ids. \<forall>l. linkOf st i = Some l \<and> l \<noteq> [] \<longrightarrow> accepts h (OpenExternal l)"
    using assms by blast
  have t: "truthy (linkOf st i) = (linkOf st i \<noteq> None)" if "i \<in> set ids" for i
    using that assms by (cases "linkOf st i") (auto simp: truthy_def)
  then have f: "filter (\<lambda>i. truthy (linkOf st i)) ids = filter (\<lambda>i. linkOf st i \<noteq> None) ids"
    by (intro filter_cong) auto
  from t have g: "filter (\<lambda>i. \<not> truthy (linkOf st i)) ids = filter (\<lambda>i. linkOf st i = None) ids"
    by (intro filter_cong) auto
  have m: "map (\<lambda>i. orElse (linkOf st i) []) (filter (\<lambda>i. linkOf st i \<noteq> None) ids)
             = List.map_filter (linkOf st) ids"
    unfolding map_filter_def by (rule map_cong) (auto simp: orElse_def)
  from unsubscribeLoop_result [OF acc, of "\<lparr>processed = 0, skipped = 0, links = []\<rparr>"]
  have "fst (bulkUnsubscribe h ids st) =
      Inr \<lparr>processed = length (filter (\<lambda>i. truthy (linkOf st i)) ids),
           skipped = length (filter (\<lambda>i. \<not> truthy (linkOf st i)) ids),
           links = map (\<lambda>i. orElse (linkOf st i) []) (filter (\<lambda>i. truthy (linkOf st i)) ids)\<rparr>"
    by (simp add: bulkUnsubscribe_def)
  then have r: "fst (bulkUnsubscribe h ids st) =
      Inr \<lparr>processed = length (filter (\<lambda>i. linkOf st i \<noteq> None) ids),
           skipped = length (filter (\<lambda>i. linkOf st i = None) ids),
           links = List.map_filter (linkOf st) ids\<rparr>"
    by (simp only: f g m)
  have "length (filter (\<lambda>i. linkOf st i \<noteq> None) ids)
          + length (filter (\<lambda>i. linkOf st i = None) ids) = length ids"
    using sum_length_filter_compl [of "\<lambda>i. linkOf st i \<noteq> None" ids] by simp
  with r show ?thesis by simp
qed

theorem C8_bulkUnsubscribe_counts_witness:
  "\<exists>res. fst (bulkUnsubscribe exampleHost [''e3'', ''e1'', ''nope''] cleanupState) = Inr res
     \<and> processed res + skipped res = 3
     \<and> processed res = 1
     \<and> skipped res = 2
     \<and> links res = [''https://shop.example/unsubscribe'']"
proof -
  have l3: "linkOf cleanupState ''e3'' = Some ''https://shop.example/unsubscribe''" by code_simp
  have l1: "linkOf cleanupState ''e1'' = None" by code_simp
  have l0: "linkOf cleanupState ''nope'' = None" by code_simp
  have acc: "\<forall>i \<in> set [''e3'', ''e1'', ''nope''].
      \<forall>l. linkOf cleanupState i = Some l \<longrightarrow> l \<noteq> [] \<and> accepts exampleHost (OpenExternal l)"
    by (simp add: l3 l1 l0 exampleHost_def)
  from C8_bulkUnsubscribe_counts [OF acc] l3 l1 l0 show ?thesis
    by (simp add: map_filter_def eval_nat_numeral)
qed

section \<open>Double arithmetic\<close>

text \<open>
  The rounding of a double is within one unit roundoff of the exact value, and is exact on
  the integers below \<open>2 ^ 53\<close>.
\<close>

lemma pow2_powi: "pow2 k = 2 powi k"
  by (simp add: pow2_def power_int_def inverse_eq_divide power_one_over)

lemma pow2_pos: "0 < pow2 k"
  by (simp add: pow2_powi)

lemma pow2_add: "pow2 (a + b) = pow2 a * pow2 b"
  by (simp add: pow2_powi power_int_add)

lemma pow2_diff: "pow2 (a - b) = pow2 a / pow2 b"
  by (simp add: pow2_powi power_int_diff)

lemma pow2_nat: "0 \<le> k \<Longrightarrow> pow2 k = 2 ^ nat k"
  by (simp add: pow2_def)

lemma pow2_less_imp: "pow2 a < pow2 b \<Longrightarrow> a < b"
proof (rule ccontr)
  assume lt: "pow2 a < pow2 b" and "\<not> a < b"
  then have "b \<le> a" by simp
  then have "pow2 b \<le> pow2 a"
    unfolding pow2_powi by (intro power_int_increasing) auto
  with lt show False by simp
qed

lemma bitLength_bounds:
  "0 < n \<Longrightarrow> 1 \<le> bitLength n \<and> 2 ^ nat (bitLength n - 1) \<le> n \<and> n < 2 ^ nat (bitLength n)"
proof (induction n rule: bitLength.induct)
  case (1 n)
  show ?case
  proof (cases "n div 2 = 0")
    case True
    with 1 have n: "n = 1" by presburger
    have "bitLength 1 = 1"
      by (simp add: bitLength.simps [of 1] bitLength.simps [of 0])
    with n show ?thesis by simp
  next
    case False
    with "1.prems" have pos: "0 < n div 2" by presburger
    from "1.IH" "1.prems" pos have ih: "1 \<le> bitLength (n div 2)"
      "2 ^ nat (bitLength (n div 2) - 1) \<le> n div 2"
      "n div 2 < 2 ^ nat (bitLength (n div 2))"
      by simp_all
    have b: "bitLength n = 1 + bitLength (n div 2)"
      using "1.prems" by (simp add: bitLength.simps [of n])
    have e1: "nat (bitLength n - 1) = Suc (nat (bitLength (n div 2) - 1))"
      using ih(1) b by simp
    have e2: "nat (bitLength n) = Suc (nat (bitLength (n div 2)))"
      using ih(1) b by simp
    have "2 * 2 ^ nat (bitLength (n div 2) - 1) \<le> 2 * (n div 2)" using ih(2) by simp
    also have "\<dots> \<le> n" by presburger
    finally have lo: "2 ^ nat (bitLength n - 1) \<le> n" by (simp add: e1)
    have "n < 2 * (n div 2 + 1)" by presburger
    also have "\<dots> \<le> 2 * 2 ^ nat (bitLength (n div 2))" using ih(3) by simp
    finally have hi: "n < 2 ^ nat (bitLength n)" by (simp add: e2)
    from b ih(1) lo hi show ?thesis by simp
  qed
qed

lemma exponent_le:
  assumes "x \<noteq> 0"
  shows "pow2 (exponent x) \<le> \<bar>x\<bar>"
proof -
  obtain p q where pq: "quotient_of \<bar>x\<bar> = (p, q)" by (cases "quotient_of \<bar>x\<bar>")
  then have q: "0 < q" by (rule quotient_of_denom_pos)
  from pq have x: "\<bar>x\<bar> = of_int p / of_int q" by (rule quotient_of_div)
  from assms have "0 < \<bar>x\<bar>" by simp
  with x q have p: "0 < p" by (simp add: zero_less_divide_iff)
  let ?a = "bitLength p" and ?b = "bitLength q"
  show ?thesis
  proof (cases "pow2 (?a - ?b) \<le> \<bar>x\<bar>")
    case True
    then show ?thesis by (simp add: exponent_def pq Let_def)
  next
    case False
    from bitLength_bounds [OF p] have a: "1 \<le> ?a" "2 ^ nat (?a - 1) \<le> p" by simp_all
    from bitLength_bounds [OF q] have b: "1 \<le> ?b" "q < 2 ^ nat ?b" by simp_all
    have pa: "pow2 (?a - 1) \<le> of_int p"
    proof -
      have "pow2 (?a - 1) = of_int (2 ^ nat (?a - 1))" using a(1) by (simp add: pow2_nat)
      also have "\<dots> \<le> of_int p" using a(2) by (simp only: of_int_le_iff)
      finally show ?thesis .
    qed
    have qb: "of_int q \<le> pow2 ?b"
    proof -
      have "(of_int q :: rat) \<le> of_int (2 ^ nat ?b)" using b(2) by (simp only: of_int_le_iff)
      also have "\<dots> = pow2 ?b" using b(1) by (simp add: pow2_nat)
      finally show ?thesis .
    qed
    have "pow2 (?a - ?b - 1) = pow2 (?a - 1) / pow2 ?b"
      using pow2_diff [of "?a - 1" ?b] by (simp add: algebra_simps)
    also have "\<dots> \<le> of_int p / of_int q"
      using pa qb q p pow2_pos [of ?b] by (intro frac_le) auto
    finally have "pow2 (?a - ?b - 1) \<le> \<bar>x\<bar>" by (simp add: x)
    with False show ?thesis by (simp add: exponent_def pq Let_def)
  qed
qed

lemma roundHalfEven_error: "\<bar>of_int (roundHalfEven m) - m\<bar> \<le> 1 / 2"
proof -
  have "of_int \<lfloor>m\<rfloor> \<le> m" "m < of_int \<lfloor>m\<rfloor> + 1" by linarith+
  then show ?thesis
    by (auto simp: roundHalfEven_def Let_def abs_le_iff)
qed

lemma roundHalfEven_int: "roundHalfEven (of_int k) = k"
  by (simp add: roundHalfEven_def)

lemma dbl_error: "\<bar>dbl x - x\<bar> \<le> \<bar>x\<bar> / 2 ^ 53"
proof (cases "x = 0")
  case True
  then show ?thesis by (simp add: dbl_def)
next
  case False
  let ?ulp = "pow2 (exponent x - 52)"
  have ulp: "0 < ?ulp" by (rule pow2_pos)
  have "dbl x - x = (of_int (roundHalfEven (x / ?ulp)) - x / ?ulp) * ?ulp"
    using False ulp by (simp add: dbl_def Let_def algebra_simps)
  then have "\<bar>dbl x - x\<bar> = \<bar>of_int (roundHalfEven (x / ?ulp)) - x / ?ulp\<bar> * ?ulp"
    using ulp by (simp add: abs_mult)
  also have "\<dots> \<le> 1 / 2 * ?ulp"
    using roundHalfEven_error [of "x / ?ulp"] ulp by (intro mult_right_mono) auto
  also have "\<dots> = pow2 (exponent x) / 2 ^ 53"
    using pow2_diff [of "exponent x" 52] by (simp add: pow2_def)
  also have "\<dots> \<le> \<bar>x\<bar> / 2 ^ 53"
    using exponent_le [OF False] by (simp add: divide_right_mono)
  finally show ?thesis .
qed

lemma dbl_bounds:
  assumes "0 \<le> x"
  shows "(1 - 1 / 2 ^ 53) * x \<le> dbl x" and "dbl x \<le> (1 + 1 / 2 ^ 53) * x"
proof -
  from dbl_error [of x] assms have "\<bar>dbl x - x\<bar> \<le> x / 2 ^ 53" by simp
  then have "dbl x - x \<le> x / 2 ^ 53" "- (x / 2 ^ 53) \<le> dbl x - x" by linarith+
  then show "(1 - 1 / 2 ^ 53) * x \<le> dbl x" and "dbl x \<le> (1 + 1 / 2 ^ 53) * x"
    by (simp_all only: left_diff_distrib distrib_right mult_1 times_divide_eq_left)
qed

lemma dbl_of_int:
  assumes "\<bar>n\<bar> < 2 ^ 53"
  shows "dbl (of_int n) = of_int n"
proof (cases "n = 0")
  case True
  then show ?thesis by (simp add: dbl_def)
next
  case False
  let ?x = "of_int n :: rat"
  let ?e = "exponent ?x"
  from False have nz: "?x \<noteq> 0" by simp
  have "pow2 ?e \<le> \<bar>?x\<bar>" by (rule exponent_le [OF nz])
  also have "\<bar>?x\<bar> < of_int (2 ^ 53)"
    using assms by (simp only: of_int_abs [symmetric] of_int_less_iff)
  also have "(of_int (2 ^ 53) :: rat) = pow2 53" by (simp add: pow2_def)
  finally have "?e < 53" by (rule pow2_less_imp)
  then have k: "0 \<le> 52 - ?e" by simp
  have ulp: "pow2 (?e - 52) = 1 / 2 ^ nat (52 - ?e)"
    using pow2_diff [of 0 "52 - ?e"] k by (simp add: pow2_nat pow2_def)
  have "?x / pow2 (?e - 52) = of_int (n * 2 ^ nat (52 - ?e))"
    by (simp add: ulp)
  then have "roundHalfEven (?x / pow2 (?e - 52)) = n * 2 ^ nat (52 - ?e)"
    by (simp only: roundHalfEven_int)
  then show ?thesis
    using nz by (simp add: dbl_def Let_def ulp)
qed

lemma unitRoundoff_range: "0 \<le> unitRoundoff" "unitRoundoff \<le> 1"
  by (simp_all add: unitRoundoff_def)

lemma dbl_between:
  "0 \<le> x \<Longrightarrow> (1 - unitRoundoff) * x \<le> dbl x \<and> dbl x \<le> (1 + unitRoundoff) * x"
  unfolding unitRoundoff_def using dbl_bounds [of x] by blast

lemma dbl_nonneg: "0 \<le> x \<Longrightarrow> 0 \<le> dbl x"
proof -
  assume x: "0 \<le> x"
  then have "0 \<le> (1 - unitRoundoff) * x"
    using unitRoundoff_range by (intro mult_nonneg_nonneg) auto
  with dbl_between [OF x] show ?thesis by linarith
qed

lemma foldl_fadd_bounds:
  assumes "0 \<le> z" "\<forall>c \<in> set cs. 0 \<le> c"
  shows "(1 - unitRoundoff) ^ length cs * (z + sum_list cs) \<le> foldl fadd z cs
         \<and> foldl fadd z cs \<le> (1 + unitRoundoff) ^ length cs * (z + sum_list cs)"
  using assms
proof (induction cs arbitrary: z)
  case Nil
  then show ?case by simp
next
  case (Cons c cs)
  let ?u = unitRoundoff
  let ?S = "sum_list cs"
  let ?n = "length cs"
  from Cons.prems have c: "0 \<le> c" and rest: "\<forall>c \<in> set cs. 0 \<le> c" by simp_all
  from rest have S: "0 \<le> ?S" by (simp add: sum_list_nonneg)
  from Cons.prems c have zc: "0 \<le> z + c" by simp
  have z': "(1 - ?u) * (z + c) \<le> fadd z c" "fadd z c \<le> (1 + ?u) * (z + c)"
    using dbl_between [OF zc] by (simp_all add: fadd_def)
  have z'0: "0 \<le> fadd z c" using dbl_nonneg [OF zc] by (simp add: fadd_def)
  from Cons.IH [OF z'0 rest]
  have ih: "(1 - ?u) ^ ?n * (fadd z c + ?S) \<le> foldl fadd (fadd z c) cs"
    "foldl fadd (fadd z c) cs \<le> (1 + ?u) ^ ?n * (fadd z c + ?S)"
    by simp_all
  have p1: "0 \<le> (1 - ?u) ^ ?n" using unitRoundoff_range by simp
  have p2: "0 \<le> (1 + ?u) ^ ?n" using unitRoundoff_range by simp
  have "(1 - ?u) * ?S \<le> ?S"
    using S unitRoundoff_range by (simp add: mult_left_le_one_le)
  with z'(1) have "(1 - ?u) * (z + c + ?S) \<le> fadd z c + ?S"
    by (simp add: distrib_left)
  then have "(1 - ?u) ^ ?n * ((1 - ?u) * (z + c + ?S)) \<le> (1 - ?u) ^ ?n * (fadd z c + ?S)"
    using p1 by (rule mult_left_mono)
  with ih(1) have lo: "(1 - ?u) ^ Suc ?n * (z + c + ?S) \<le> foldl fadd (fadd z c) cs"
    by (simp add: mult.assoc mult.commute mult.left_commute)
  have "?S \<le> (1 + ?u) * ?S"
    using S unitRoundoff_range by (simp add: mult_le_cancel_right1)
  with z'(2) have "fadd z c + ?S \<le> (1 + ?u) * (z + c + ?S)"
    by (simp add: distrib_left)
  then have "(1 + ?u) ^ ?n * (fadd z c + ?S) \<le> (1 + ?u) ^ ?n * ((1 + ?u) * (z + c + ?S))"
    using p2 by (rule mult_left_mono)
  with ih(2) have hi: "foldl fadd (fadd z c) cs \<le> (1 + ?u) ^ Suc ?n * (z + c + ?S)"
    by (simp add: mult.assoc mult.commute mult.left_commute)
  from lo hi show ?case by (simp add: add.assoc)
qed

lemma fmul_between:
  "0 \<le> k \<Longrightarrow> 0 \<le> w \<Longrightarrow>
     (1 - unitRoundoff) * (k * w) \<le> fmul k w \<and> fmul k w \<le> (1 + unitRoundoff) * (k * w)"
  using dbl_between [of "k * w"] by (simp add: fmul_def)

lemma accumulated_bounds:
  assumes w: "0 \<le> w"
  shows "(1 - unitRoundoff) ^ Suc (nc + ns + nk)
           * ((2 * of_nat nc + 3 * of_nat ns + of_nat nk / 2) * w)
         \<le> foldl fadd 0
             (replicate nc (fmul 2 w) @ replicate ns (fmul 3 w) @ replicate nk (fmul (1 / 2) w))
         \<and> foldl fadd 0
             (replicate nc (fmul 2 w) @ replicate ns (fmul 3 w) @ replicate nk (fmul (1 / 2) w))
           \<le> (1 + unitRoundoff) ^ Suc (nc + ns + nk)
               * ((2 * of_nat nc + 3 * of_nat ns + of_nat nk / 2) * w)"
proof -
  let ?u = unitRoundoff
  let ?cs = "replicate nc (fmul 2 w) @ replicate ns (fmul 3 w) @ replicate nk (fmul (1 / 2) w)"
  let ?n = "nc + ns + nk"
  let ?exact = "(2 * of_nat nc + 3 * of_nat ns + of_nat nk / 2) * w"
  let ?acc = "foldl fadd 0 ?cs"
  have b2: "(1 - ?u) * (2 * w) \<le> fmul 2 w" "fmul 2 w \<le> (1 + ?u) * (2 * w)"
    using fmul_between [of 2 w] w by simp_all
  have b3: "(1 - ?u) * (3 * w) \<le> fmul 3 w" "fmul 3 w \<le> (1 + ?u) * (3 * w)"
    using fmul_between [of 3 w] w by simp_all
  have bh: "(1 - ?u) * (1 / 2 * w) \<le> fmul (1 / 2) w" "fmul (1 / 2) w \<le> (1 + ?u) * (1 / 2 * w)"
    using fmul_between [of "1 / 2" w] w by simp_all
  have nonneg: "\<forall>c \<in> set ?cs. 0 \<le> c"
    using w by (auto simp: fmul_def intro!: dbl_nonneg)
  have len: "length ?cs = ?n" by simp
  have sum: "sum_list ?cs = of_nat nc * fmul 2 w + of_nat ns * fmul 3 w + of_nat nk * fmul (1 / 2) w"
    by (simp add: sum_list_replicate)
  have lo_sum: "(1 - ?u) * ?exact \<le> sum_list ?cs"
  proof -
    have a: "of_nat nc * ((1 - ?u) * (2 * w)) \<le> of_nat nc * fmul 2 w"
      using b2(1) by (intro mult_left_mono) auto
    have b: "of_nat ns * ((1 - ?u) * (3 * w)) \<le> of_nat ns * fmul 3 w"
      using b3(1) by (intro mult_left_mono) auto
    have c: "of_nat nk * ((1 - ?u) * (1 / 2 * w)) \<le> of_nat nk * fmul (1 / 2) w"
      using bh(1) by (intro mult_left_mono) auto
    have "(1 - ?u) * ?exact =
        of_nat nc * ((1 - ?u) * (2 * w)) + of_nat ns * ((1 - ?u) * (3 * w))
          + of_nat nk * ((1 - ?u) * (1 / 2 * w))"
      by (simp add: field_simps)
    also have "\<dots> \<le> sum_list ?cs"
      unfolding sum using a b c by (intro add_mono)
    finally show ?thesis .
  qed
  have hi_sum: "sum_list ?cs \<le> (1 + ?u) * ?exact"
  proof -
    have a: "of_nat nc * fmul 2 w \<le> of_nat nc * ((1 + ?u) * (2 * w))"
      using b2(2) by (intro mult_left_mono) auto
    have b: "of_nat ns * fmul 3 w \<le> of_nat ns * ((1 + ?u) * (3 * w))"
      using b3(2) by (intro mult_left_mono) auto
    have c: "of_nat nk * fmul (1 / 2) w \<le> of_nat nk * ((1 + ?u) * (1 / 2 * w))"
      using bh(2) by (intro mult_left_mono) auto
    have "sum_list ?cs \<le>
        of_nat nc * ((1 + ?u) * (2 * w)) + of_nat ns * ((1 + ?u) * (3 * w))
          + of_nat nk * ((1 + ?u) * (1 / 2 * w))"
      unfolding sum using a b c by (intro add_mono)
    also have "\<dots> = (1 + ?u) * ?exact"
      by (simp add: field_simps)
    finally show ?thesis .
  qed
  have "(1 - ?u) ^ length ?cs * (0 + sum_list ?cs) \<le> ?acc
      \<and> ?acc \<le> (1 + ?u) ^ length ?cs * (0 + sum_list ?cs)"
    using nonneg by (intro foldl_fadd_bounds) simp_all
  then have f: "(1 - ?u) ^ ?n * sum_list ?cs \<le> ?acc" "?acc \<le> (1 + ?u) ^ ?n * sum_list ?cs"
    by (simp_all only: len add_0_left)
  have p1: "0 \<le> (1 - ?u) ^ ?n" using unitRoundoff_range by simp
  have p2: "0 \<le> (1 + ?u) ^ ?n" using unitRoundoff_range by simp
  have "(1 - ?u) ^ ?n * ((1 - ?u) * ?exact) \<le> (1 - ?u) ^ ?n * sum_list ?cs"
    using lo_sum p1 by (rule mult_left_mono)
  with f(1) have lo: "(1 - ?u) ^ Suc ?n * ?exact \<le> ?acc"
    by (simp add: mult.assoc mult.commute mult.left_commute)
  have "(1 + ?u) ^ ?n * sum_list ?cs \<le> (1 + ?u) ^ ?n * ((1 + ?u) * ?exact)"
    using hi_sum p2 by (rule mult_left_mono)
  with f(2) have hi: "?acc \<le> (1 + ?u) ^ Suc ?n * ?exact"
    by (simp add: mult.assoc mult.commute mult.left_commute)
  from lo hi show ?thesis by blast
qed

lemma pow2_mono: "a \<le> b \<Longrightarrow> pow2 a \<le> pow2 b"
  unfolding pow2_powi by (intro power_int_increasing) auto

lemma roundHalfEven_ge:
  assumes "of_int K \<le> m"
  shows "K \<le> roundHalfEven m"
proof -
  from roundHalfEven_error [of m] have "m - 1 / 2 \<le> of_int (roundHalfEven m)"
    by linarith
  with assms have "(of_int K :: rat) - 1 / 2 \<le> of_int (roundHalfEven m)" by linarith
  then have "(of_int (2 * K - 1) :: rat) \<le> of_int (2 * roundHalfEven m)" by simp
  then have "2 * K - 1 \<le> 2 * roundHalfEven m" by (simp only: of_int_le_iff)
  then show ?thesis by arith
qed

lemma dbl_large:
  assumes x: "2 ^ 53 \<le> x"
  shows "2 ^ 53 \<le> dbl x"
proof -
  from x have nz: "x \<noteq> 0" and pos: "0 < x" by auto
  let ?e = "exponent x"
  let ?ulp = "pow2 (?e - 52)"
  let ?R = "roundHalfEven (x / ?ulp)"
  have ulp: "0 < ?ulp" by (rule pow2_pos)
  have d: "dbl x = of_int ?R * ?ulp" using nz by (simp add: dbl_def Let_def)
  show ?thesis
  proof (cases "53 \<le> ?e")
    case True
    have "pow2 ?e \<le> x" using exponent_le [OF nz] pos by simp
    then have "pow2 ?e / ?ulp \<le> x / ?ulp" using ulp by (simp add: divide_right_mono)
    moreover have "pow2 ?e / ?ulp = of_int (2 ^ 52)"
      using pow2_diff [of ?e "?e - 52"] by (simp add: pow2_def)
    ultimately have "(2 ^ 52 :: int) \<le> ?R" by (intro roundHalfEven_ge) simp
    then have "(of_int (2 ^ 52) :: rat) \<le> of_int ?R" by (simp only: of_int_le_iff)
    then have "of_int (2 ^ 52) * ?ulp \<le> of_int ?R * ?ulp"
      using ulp by (intro mult_right_mono) auto
    moreover have "of_int (2 ^ 52) * ?ulp = pow2 ?e"
      using pow2_add [of 52 "?e - 52"] by (simp add: pow2_def)
    moreover have "pow2 53 \<le> pow2 ?e" using True by (rule pow2_mono)
    moreover have "pow2 53 = 2 ^ 53" by (simp add: pow2_def)
    ultimately show ?thesis using d by simp
  next
    case False
    then have k: "0 \<le> 52 - ?e" by simp
    let ?K = "2 ^ 53 * 2 ^ nat (52 - ?e) :: int"
    have inv: "?ulp * pow2 (52 - ?e) = 1"
      using pow2_add [of "?e - 52" "52 - ?e"] by (simp add: pow2_def)
    then have xm: "x / ?ulp = x * pow2 (52 - ?e)"
      using ulp by (simp add: field_simps)
    have pk: "pow2 (52 - ?e) = of_int (2 ^ nat (52 - ?e))"
      using k by (simp add: pow2_nat)
    have "of_int ?K = 2 ^ 53 * pow2 (52 - ?e)" by (simp add: pk)
    also have "\<dots> \<le> x * pow2 (52 - ?e)"
      using x pow2_pos [of "52 - ?e"] by (intro mult_right_mono) auto
    finally have "of_int ?K \<le> x / ?ulp" by (simp only: xm)
    then have "?K \<le> ?R" by (rule roundHalfEven_ge)
    then have "(of_int ?K :: rat) \<le> of_int ?R" by (simp only: of_int_le_iff)
    then have "of_int ?K * ?ulp \<le> of_int ?R * ?ulp"
      using ulp by (intro mult_right_mono) auto
    moreover have "of_int ?K * ?ulp = 2 ^ 53"
    proof -
      have "of_int ?K * ?ulp = 2 ^ 53 * (?ulp * pow2 (52 - ?e))" by (simp add: pk)
      then show ?thesis by (simp only: inv mult_1_right)
    qed
    ultimately show ?thesis using d by simp
  qed
qed

lemma dbl_negative:
  assumes "x < 0"
  shows "dbl x < 0"
proof -
  from dbl_error [of x] have "dbl x \<le> x + \<bar>x\<bar> / 2 ^ 53" by linarith
  also have "\<dots> = x * (1 - 1 / 2 ^ 53)" using assms by (simp add: algebra_simps)
  also have "\<dots> < 0" using assms by (intro mult_neg_pos) auto
  finally show ?thesis .
qed

lemma roundHalfEven_minus: "roundHalfEven (- m) = - roundHalfEven m"
proof (cases "m \<in> \<int>")
  case True
  then obtain k where "m = of_int k" by (auto elim: Ints_cases)
  then have "- m = of_int (- k)" by simp
  then show ?thesis using \<open>m = of_int k\<close> by (simp only: roundHalfEven_int)
next
  case False
  then have ne: "of_int \<lfloor>m\<rfloor> \<noteq> m" by (metis Ints_of_int)
  have lo: "of_int \<lfloor>m\<rfloor> \<le> m" and hi: "m < of_int \<lfloor>m\<rfloor> + 1" by linarith+
  have f: "\<lfloor>- m\<rfloor> = - \<lfloor>m\<rfloor> - 1"
  proof (rule floor_unique)
    show "of_int (- \<lfloor>m\<rfloor> - 1) \<le> - m" using hi by simp
    from lo ne have "of_int \<lfloor>m\<rfloor> < m" by linarith
    then show "- m < of_int (- \<lfloor>m\<rfloor> - 1) + 1" by simp
  qed
  show ?thesis
    unfolding roundHalfEven_def Let_def f using lo hi by (auto simp: algebra_simps)
qed

lemma exponent_minus: "exponent (- x) = exponent x"
  by (simp add: exponent_def)

lemma dbl_minus: "dbl (- x) = - dbl x"
  by (simp add: dbl_def Let_def exponent_minus roundHalfEven_minus)

lemma dbl_large_negative:
  assumes "x \<le> - (2 ^ 53)"
  shows "dbl x \<le> - (2 ^ 53)"
proof -
  from assms have "2 ^ 53 \<le> - x" by simp
  then have "2 ^ 53 \<le> dbl (- x)" by (rule dbl_large)
  then show ?thesis by (simp add: dbl_minus)
qed

section \<open>Large attachments\<close>

lemma abs_sizes_nonneg:
  "0 \<le> (\<Sum>a\<leftarrow>as. case att_size a of None \<Rightarrow> 0 | Some n \<Rightarrow> \<bar>n\<bar>)"
  by (rule sum_list_nonneg) (auto split: option.splits)

lemma abs_sizes:
  "\<bar>\<Sum>a\<leftarrow>as. case att_size a of None \<Rightarrow> 0 | Some n \<Rightarrow> n\<bar>
     \<le> (\<Sum>a\<leftarrow>as. case att_size a of None \<Rightarrow> 0 | Some n \<Rightarrow> \<bar>n\<bar>)"
  by (induction as) (auto split: option.splits)

lemma foldl_sizes_exact:
  assumes "\<bar>k\<bar> + (\<Sum>a\<leftarrow>as. case att_size a of None \<Rightarrow> 0 | Some n \<Rightarrow> \<bar>n\<bar>) < 2 ^ 53"
  shows "foldl (\<lambda>sum att. fadd sum (case att_size att of None \<Rightarrow> 0 | Some n \<Rightarrow> dbl (of_int n)))
           (of_int k) as
         = of_int (k + (\<Sum>a\<leftarrow>as. case att_size a of None \<Rightarrow> 0 | Some n \<Rightarrow> n))"
  using assms
proof (induction as arbitrary: k)
  case Nil
  then show ?case by simp
next
  case (Cons a as)
  let ?rest = "\<Sum>a\<leftarrow>as. case att_size a of None \<Rightarrow> 0 | Some n \<Rightarrow> \<bar>n\<bar>"
  note rest = abs_sizes_nonneg [of as]
  show ?case
  proof (cases "att_size a")
    case None
    with Cons.prems rest have k: "\<bar>k\<bar> < 2 ^ 53" and lt: "\<bar>k\<bar> + ?rest < 2 ^ 53" by simp_all
    have "fadd (of_int k) 0 = of_int k"
      using dbl_of_int [OF k] by (simp add: fadd_def)
    with None Cons.IH [OF lt] show ?thesis by simp
  next
    case (Some n)
    with Cons.prems have lt: "\<bar>k\<bar> + \<bar>n\<bar> + ?rest < 2 ^ 53" by simp
    with rest have n: "\<bar>n\<bar> < 2 ^ 53" and kn: "\<bar>k + n\<bar> < 2 ^ 53"
      and lt': "\<bar>k + n\<bar> + ?rest < 2 ^ 53"
      by linarith+
    have "fadd (of_int k) (dbl (of_int n)) = of_int (k + n)"
      using dbl_of_int [OF n] dbl_of_int [OF kn] by (simp add: fadd_def)
    with Some Cons.IH [OF lt'] show ?thesis by (simp add: add.assoc)
  qed
qed

lemma attachmentsTotal_exact: "exactSizes e \<Longrightarrow> attachmentsTotal e = of_int (sizeSum e)"
  using foldl_sizes_exact [of 0 "attachments e"]
  by (simp add: exactSizes_def sizeSum_def attachmentsTotal_def)

lemma sizeSum_small: "exactSizes e \<Longrightarrow> \<bar>sizeSum e\<bar> < 2 ^ 53"
  using abs_sizes [of "attachments e"] by (simp add: exactSizes_def sizeSum_def)

lemma meets_threshold:
  assumes "exactSizes e"
  shows "(dbl (of_int n) \<le> attachmentsTotal e) = (n \<le> sizeSum e)"
proof -
  note total = attachmentsTotal_exact [OF assms]
  from sizeSum_small [OF assms] have lt: "sizeSum e < 2 ^ 53" and gt: "- (2 ^ 53) < sizeSum e"
    by linarith+
  consider "\<bar>n\<bar> < 2 ^ 53" | "2 ^ 53 \<le> n" | "n \<le> - (2 ^ 53)" by linarith
  then show ?thesis
  proof cases
    case 1
    then show ?thesis using total dbl_of_int [of n] by simp
  next
    case 2
    then have "(of_int (2 ^ 53) :: rat) \<le> of_int n" by (simp only: of_int_le_iff)
    then have "2 ^ 53 \<le> dbl (of_int n)" by (intro dbl_large) simp
    moreover have "(of_int (sizeSum e) :: rat) < of_int (2 ^ 53)"
      using lt by (simp only: of_int_less_iff)
    ultimately have "\<not> dbl (of_int n) \<le> attachmentsTotal e" using total by simp
    with 2 lt show ?thesis by simp
  next
    case 3
    then have "(of_int n :: rat) \<le> of_int (- (2 ^ 53))" by (simp only: of_int_le_iff)
    then have "dbl (of_int n) \<le> - (2 ^ 53)" by (intro dbl_large_negative) simp
    moreover have "(of_int (- (2 ^ 53)) :: rat) < of_int (sizeSum e)"
      using gt by (simp only: of_int_less_iff)
    ultimately have "dbl (of_int n) \<le> attachmentsTotal e" using total by simp
    with 3 gt show ?thesis by simp
  qed
qed

text \<open>
  C10, as stated, fails in two ways. \<open>options.minSize || 5 * 1024 * 1024\<close> takes 0 for a
  missing threshold, so a loaded message whose attachments sum to 0 bytes, which meets the
  threshold 0, is not returned. And the sizes are added as doubles: three attachments of
  \<open>2 ^ 53\<close>, 1 and 1 bytes sum to \<open>2 ^ 53 + 2\<close> bytes, the code adds them up to \<open>2 ^ 53\<close>,
  and the message is not returned for the threshold \<open>2 ^ 53 + 2\<close> that it meets.
\<close>

theorem C10_threshold_zero_or_inexact_sum:
  "recentEmails 5000 None exampleState = [exampleEmail]
   \<and> 0 \<le> sizeSum exampleEmail
   \<and> findLargeAttachments \<lparr>minSize = Some 0, la_accountId = None\<rparr> exampleState = []
   \<and> recentEmails 5000 None hugeState = [hugeEmail]
   \<and> 9007199254740994 \<le> sizeSum hugeEmail
   \<and> findLargeAttachments \<lparr>minSize = Some 9007199254740994, la_accountId = None\<rparr> hugeState = []"
  by code_simp

text \<open>
  C10, amended. The messages looked at are those that \<open>getEmails\<close> loads for the account
  with \<open>limit: 5000\<close>. When for each of them the absolute values of the attachment
  sizes (a missing size counts 0) sum to less than \<open>2 ^ 53\<close> bytes, then for a threshold
  other than 0 \<open>findLargeAttachments\<close> returns exactly the loaded messages whose sizes sum
  to the threshold or more; when no threshold is supplied, or the threshold 0, the
  threshold is 5 MiB.
\<close>

theorem C10_findLargeAttachments:
  assumes "\<forall>e \<in> set (recentEmails 5000 (la_accountId opts) st). exactSizes e"
  shows "(minSize opts = Some n \<and> n \<noteq> 0 \<longrightarrow>
      findLargeAttachments opts st =
        filter (\<lambda>e. n \<le> sizeSum e) (recentEmails 5000 (la_accountId opts) st))
   \<and> (minSize opts = None \<or> minSize opts = Some 0 \<longrightarrow>
      findLargeAttachments opts st =
        filter (\<lambda>e. 5 * 1024 * 1024 \<le> sizeSum e) (recentEmails 5000 (la_accountId opts) st))"
proof -
  have a: "(dbl (of_int n) \<le> attachmentsTotal e) = (n \<le> sizeSum e)"
    if "e \<in> set (recentEmails 5000 (la_accountId opts) st)" for e n
    using that assms meets_threshold by blast
  have b: "(5 * 1024 * 1024 \<le> attachmentsTotal e) = (5 * 1024 * 1024 \<le> sizeSum e)"
    if "e \<in> set (recentEmails 5000 (la_accountId opts) st)" for e
  proof -
    from that assms have "attachmentsTotal e = of_int (sizeSum e)"
      using attachmentsTotal_exact by blast
    moreover have "(5 * 1024 * 1024 \<le> (of_int (sizeSum e) :: rat)) = (5 * 1024 * 1024 \<le> sizeSum e)"
      using of_int_le_iff [of "5 * 1024 * 1024" "sizeSum e", where 'a = rat] by simp
    ultimately show ?thesis by simp
  qed
  show ?thesis
    using a b by (auto simp: findLargeAttachments_def Let_def intro!: filter_cong)
qed

theorem C10_findLargeAttachments_witness:
  "list_all exactSizes (recentEmails 5000 None attachmentState)
   \<and> findLargeAttachments \<lparr>minSize = Some 7000000, la_accountId = None\<rparr> attachmentState = []
   \<and> findLargeAttachments \<lparr>minSize = Some 1000, la_accountId = None\<rparr> attachmentState = [scanEmail]
   \<and> findLargeAttachments \<lparr>minSize = None, la_accountId = None\<rparr> attachmentState = [scanEmail]"
proof -
  have loaded: "recentEmails 5000 None attachmentState = [scanEmail, exampleEmail]"
    by code_simp
  have sizes: "sizeSum scanEmail = 6000000" "sizeSum exampleEmail = 0"
    by (simp_all add: sizeSum_def scanEmail_def exampleEmail_def)
  have exact: "exactSizes scanEmail" "exactSizes exampleEmail"
    by (simp_all add: exactSizes_def scanEmail_def exampleEmail_def)
  then have pre: "\<forall>e \<in> set (recentEmails 5000 (la_accountId \<lparr>minSize = m, la_accountId = None\<rparr>)
                       attachmentState). exactSizes e" for m
    by (simp add: loaded)
  from C10_findLargeAttachments [OF pre, of "Some 7000000" 7000000]
       C10_findLargeAttachments [OF pre, of "Some 1000" 1000]
       C10_findLargeAttachments [OF pre, of None 0]
  show ?thesis using exact by (simp add: loaded sizes)
qed

section \<open>Duplicates\<close>

lemma length_sort_by: "length (sort_by le xs) = length xs"
  by (metis mset_sort_by size_mset)

lemma sorted_insort_by_on:
  assumes tot: "\<forall>a \<in> A. \<forall>b \<in> A. le a b \<or> le b a"
    and tr: "\<forall>a \<in> A. \<forall>b \<in> A. \<forall>c \<in> A. le a b \<longrightarrow> le b c \<longrightarrow> le a c"
    and x: "x \<in> A"
  shows "set xs \<subseteq> A \<Longrightarrow> sorted_wrt le xs \<Longrightarrow> sorted_wrt le (insort_by le x xs)"
proof (induction xs)
  case Nil
  then show ?case by simp
next
  case (Cons y ys)
  then have y: "y \<in> A" and ys: "set ys \<subseteq> A" by auto
  show ?case
  proof (cases "le x y")
    case True
    have "le x z" if "z \<in> set ys" for z
    proof -
      from that Cons.prems have "le y z" by auto
      with True tr x y ys that show ?thesis by blast
    qed
    with True Cons.prems show ?thesis by auto
  next
    case False
    with tot x y have "le y x" by blast
    with Cons False ys show ?thesis by (auto simp: set_insort_by)
  qed
qed

lemma sorted_sort_by_on:
  assumes tot: "\<forall>a \<in> A. \<forall>b \<in> A. le a b \<or> le b a"
    and tr: "\<forall>a \<in> A. \<forall>b \<in> A. \<forall>c \<in> A. le a b \<longrightarrow> le b c \<longrightarrow> le a c"
  shows "set xs \<subseteq> A \<Longrightarrow> sorted_wrt le (sort_by le xs)"
proof (induction xs)
  case Nil
  then show ?case by (simp add: sort_by_def)
next
  case (Cons x xs)
  have eq: "sort_by le (x # xs) = insort_by le x (sort_by le xs)"
    by (simp add: sort_by_def)
  from Cons have "sorted_wrt le (sort_by le xs)" "x \<in> A" "set (sort_by le xs) \<subseteq> A"
    by (auto simp: set_sort_by)
  with sorted_insort_by_on [OF tot tr] eq show ?case by simp
qed

lemma groupByKey_snoc:
  "groupByKey (xs @ [x]) = groupPush (duplicateKey x) x (groupByKey xs)"
  by (simp add: groupByKey_def)

lemma keys_groupPush_known:
  "k \<in> fst ` set M \<Longrightarrow> map fst (groupPush k e M) = map fst M"
  by (induction M) force+

lemma keys_groupPush_new:
  "k \<notin> fst ` set M \<Longrightarrow> map fst (groupPush k e M) = map fst M @ [k]"
  by (induction M) auto

lemma distinct_groupPush: "distinct (map fst M) \<Longrightarrow> distinct (map fst (groupPush k e M))"
  by (cases "k \<in> fst ` set M") (simp_all add: keys_groupPush_known keys_groupPush_new)

lemma map_of_groupPush:
  "map_of (groupPush k e M) =
     (map_of M)(k \<mapsto> (case map_of M k of None \<Rightarrow> [e] | Some es \<Rightarrow> es @ [e]))"
  by (induction M) (auto simp: fun_eq_iff)

lemma distinct_groupByKey: "distinct (map fst (groupByKey xs))"
  by (induction xs rule: rev_induct) (simp_all add: groupByKey_snoc distinct_groupPush groupByKey_def)

lemma map_of_groupByKey:
  "map_of (groupByKey xs) k =
     (if k \<in> duplicateKey ` set xs then Some (filter (\<lambda>e. duplicateKey e = k) xs) else None)"
proof (induction xs arbitrary: k rule: rev_induct)
  case Nil
  then show ?case by (simp add: groupByKey_def)
next
  case (snoc x xs)
  show ?case
  proof (cases "k = duplicateKey x")
    case True
    have "filter (\<lambda>e. duplicateKey e = duplicateKey x) xs = []"
      if "duplicateKey x \<notin> duplicateKey ` set xs"
      using that by (induction xs) auto
    with True snoc [of "duplicateKey x"] show ?thesis
      by (simp add: groupByKey_snoc map_of_groupPush)
  next
    case False
    with snoc [of k] show ?thesis
      by (simp add: groupByKey_snoc map_of_groupPush)
  qed
qed

lemma groupByKey_member:
  "(k, es) \<in> set (groupByKey xs) \<longleftrightarrow>
     k \<in> duplicateKey ` set xs \<and> es = filter (\<lambda>e. duplicateKey e = k) xs"
proof -
  have "(k, es) \<in> set (groupByKey xs) \<longleftrightarrow> map_of (groupByKey xs) k = Some es"
    using distinct_groupByKey by (simp add: map_of_eq_Some_iff)
  then show ?thesis by (auto simp: map_of_groupByKey)
qed

lemma duplicateGroup_cases:
  "duplicateGroup h (k, es) =
     (if length es > 1 then
        [\<lparr>hash = k, group_emails = jsSort (newestFirst h) es,
          group_subject = subject (hd (jsSort (newestFirst h) es)),
          group_from = from_address (hd (jsSort (newestFirst h) es))\<rparr>]
      else [])"
proof (cases "jsSort (newestFirst h) es")
  case Nil
  then have "length es = 0"
    by (metis jsSort_def length_sort_by list.size(3))
  then show ?thesis by (simp add: duplicateGroup_def)
next
  case (Cons a list)
  then show ?thesis by (simp add: duplicateGroup_def)
qed

lemma hashes_findDuplicates:
  "map hash (concat (map (duplicateGroup h) M)) = map fst (filter (\<lambda>(k, es). length es > 1) M)"
  by (induction M) (auto simp: duplicateGroup_cases)

lemma findDuplicates_member:
  "g \<in> set (concat (map (duplicateGroup h) M)) \<longleftrightarrow>
     (\<exists>k es. (k, es) \<in> set M \<and> length es > 1
        \<and> g = \<lparr>hash = k, group_emails = jsSort (newestFirst h) es,
                 group_subject = subject (hd (jsSort (newestFirst h) es)),
                 group_from = from_address (hd (jsSort (newestFirst h) es))\<rparr>)"
proof -
  have "g \<in> set (concat (map (duplicateGroup h) M)) \<longleftrightarrow>
          (\<exists>p \<in> set M. g \<in> set (duplicateGroup h p))"
    by auto
  also have "\<dots> \<longleftrightarrow> (\<exists>k es. (k, es) \<in> set M \<and> g \<in> set (duplicateGroup h (k, es)))"
    by auto
  finally show ?thesis
    by (simp add: duplicateGroup_cases) blast
qed


lemma newestFirst_valid:
  "Date_getTime h (date a) = Some ta \<Longrightarrow> Date_getTime h (date b) = Some tb \<Longrightarrow>
     newestFirst h a b \<le> 0 \<longleftrightarrow> tb \<le> ta"
  by (simp add: newestFirst_def)

lemma sorted_newestFirst:
  assumes valid: "\<forall>e \<in> set es. Date_getTime h (date e) \<noteq> None"
  shows "sorted_wrt (\<lambda>a b. \<forall>ta tb. Date_getTime h (date a) = Some ta
                      \<and> Date_getTime h (date b) = Some tb \<longrightarrow> tb \<le> ta)
           (jsSort (newestFirst h) es)"
proof -
  let ?le = "\<lambda>a b. newestFirst h a b \<le> 0"
  have tot: "\<forall>a \<in> set es. \<forall>b \<in> set es. ?le a b \<or> ?le b a"
    by (auto simp: newestFirst_def split: option.splits)
  have tr: "\<forall>a \<in> set es. \<forall>b \<in> set es. \<forall>c \<in> set es. ?le a b \<longrightarrow> ?le b c \<longrightarrow> ?le a c"
  proof (intro ballI impI)
    fix a b c
    assume mem: "a \<in> set es" "b \<in> set es" "c \<in> set es" and ab: "?le a b" and bc: "?le b c"
    from valid mem obtain ta where ta: "Date_getTime h (date a) = Some ta" by blast
    from valid mem obtain tb where tb: "Date_getTime h (date b) = Some tb" by blast
    from valid mem obtain tc where tc: "Date_getTime h (date c) = Some tc" by blast
    from ab bc ta tb tc show "?le a c" by (simp add: newestFirst_def)
  qed
  have "sorted_wrt ?le (sort_by ?le es)"
    using sorted_sort_by_on [OF tot tr] by simp
  then show ?thesis
    unfolding jsSort_def
    by (rule sorted_wrt_mono_rel [rotated]) (auto simp: newestFirst_def split: option.splits)
qed

text \<open>
  What \<open>findDuplicates\<close> returns. Let the loaded messages be those \<open>getEmails\<close> returns
  for the account with \<open>limit: 5000\<close>. There is one group for each key string that more
  than one loaded message has; its members are all the loaded messages with that key;
  when every loaded date is one that \<open>new Date\<close> parses, each group is in descending date,
  the newest first. The result is a function of the loaded messages alone.
\<close>

lemma findDuplicates_groups:
  "distinct (map hash (findDuplicates h acct st))
   \<and> (\<forall>g \<in> set (findDuplicates h acct st).
         1 < length (group_emails g)
         \<and> mset (group_emails g) =
             mset (filter (\<lambda>e. duplicateKey e = hash g) (recentEmails 5000 acct st))
         \<and> ((\<forall>e \<in> set (recentEmails 5000 acct st). Date_getTime h (date e) \<noteq> None) \<longrightarrow>
              sorted_wrt (\<lambda>a b. \<forall>ta tb. Date_getTime h (date a) = Some ta
                            \<and> Date_getTime h (date b) = Some tb \<longrightarrow> tb \<le> ta)
                (group_emails g)))
   \<and> (\<forall>e \<in> set (recentEmails 5000 acct st).
         1 < length (filter (\<lambda>e'. duplicateKey e' = duplicateKey e) (recentEmails 5000 acct st))
         \<longrightarrow> duplicateKey e \<in> hash ` set (findDuplicates h acct st))
   \<and> (recentEmails 5000 acct st' = recentEmails 5000 acct st \<longrightarrow>
         findDuplicates h acct st' = findDuplicates h acct st)"
proof -
  let ?W = "recentEmails 5000 acct st"
  let ?G = "findDuplicates h acct st"
  have G: "?G = concat (map (duplicateGroup h) (groupByKey ?W))"
    by (simp add: findDuplicates_def)
  have d: "distinct (map hash ?G)"
    unfolding G hashes_findDuplicates
    by (rule distinct_map_filter) (rule distinct_groupByKey)
  have m: "1 < length (group_emails g)
         \<and> mset (group_emails g) = mset (filter (\<lambda>e. duplicateKey e = hash g) ?W)
         \<and> ((\<forall>e \<in> set ?W. Date_getTime h (date e) \<noteq> None) \<longrightarrow>
              sorted_wrt (\<lambda>a b. \<forall>ta tb. Date_getTime h (date a) = Some ta
                            \<and> Date_getTime h (date b) = Some tb \<longrightarrow> tb \<le> ta)
                (group_emails g))" if "g \<in> set ?G" for g
  proof -
    from that obtain k es where kes: "(k, es) \<in> set (groupByKey ?W)" "1 < length es"
      and g: "hash g = k" "group_emails g = jsSort (newestFirst h) es"
      unfolding G findDuplicates_member by auto
    from kes have es: "es = filter (\<lambda>e. duplicateKey e = k) ?W"
      by (simp add: groupByKey_member)
    have "sorted_wrt (\<lambda>a b. \<forall>ta tb. Date_getTime h (date a) = Some ta
                            \<and> Date_getTime h (date b) = Some tb \<longrightarrow> tb \<le> ta)
                (jsSort (newestFirst h) es)"
      if "\<forall>e \<in> set ?W. Date_getTime h (date e) \<noteq> None"
      using that es by (intro sorted_newestFirst) auto
    with kes g es show ?thesis
      by (simp add: jsSort_def length_sort_by mset_sort_by)
  qed
  have c: "duplicateKey e \<in> hash ` set ?G"
    if "e \<in> set ?W" "1 < length (filter (\<lambda>e'. duplicateKey e' = duplicateKey e) ?W)" for e
  proof -
    let ?es = "filter (\<lambda>e'. duplicateKey e' = duplicateKey e) ?W"
    from that have "(duplicateKey e, ?es) \<in> set (groupByKey ?W)"
      by (simp add: groupByKey_member)
    with that have "duplicateKey e \<in> set (map hash ?G)"
      unfolding G hashes_findDuplicates by force
    then show ?thesis by simp
  qed
  have r: "findDuplicates h acct st' = ?G" if "recentEmails 5000 acct st' = ?W"
    using that by (simp add: findDuplicates_def)
  from d m c r show ?thesis by blast
qed

text \<open>
  C9 fails on the code: groups are not formed by the three parts of the key. The code
  joins the parts into one string with \<open>|\<close> and groups by that string, so two messages
  whose parts differ have the same key when a part contains \<open>|\<close>. These two differ in
  subject and snippet, and are returned as duplicates of each other.
\<close>

theorem C9_key_collision:
  "keyParts pipeEmailA = [''sale|news@shop.example'', ''news@shop.example'', ''hello'']
   \<and> keyParts pipeEmailB = [''sale'', ''news@shop.example'', ''news@shop.example|hello'']
   \<and> duplicateKey pipeEmailA = duplicateKey pipeEmailB
   \<and> map (\<lambda>g. map email_id (group_emails g)) (findDuplicates exampleHost None pipeState)
       = [[''p1'', ''p2'']]"
  by code_simp

section \<open>The winning category\<close>

lemma mapSet_new: "k \<notin> fst ` set m \<Longrightarrow> mapSet k v m = m @ [(k, v)]"
  by (induction m) auto

lemma mapSet_known:
  "distinct (map fst m) \<Longrightarrow> k \<in> fst ` set m \<Longrightarrow>
     mapSet k v m = map (\<lambda>p. if fst p = k then (fst p, v) else p) m"
proof (induction m)
  case Nil
  then show ?case by simp
next
  case (Cons p m)
  obtain k' v' where p: "p = (k', v')" by (cases p)
  show ?case
  proof (cases "k' = k")
    case True
    with Cons.prems p have "k \<notin> fst ` set m" by auto
    then have "map (\<lambda>p. if fst p = k then (fst p, v) else p) m = m"
      by (induction m) auto
    with True p show ?thesis by simp
  next
    case False
    with Cons p show ?thesis by auto
  qed
qed

lemma foldl_mapSet:
  "distinct (map fst m @ map cat_id cs) \<Longrightarrow>
     foldl (\<lambda>scores c. mapSet (cat_id c) (f c) scores) m cs = m @ map (\<lambda>c. (cat_id c, f c)) cs"
proof (induction cs arbitrary: m)
  case Nil
  then show ?case by simp
next
  case (Cons c cs)
  from Cons.prems have new: "cat_id c \<notin> fst ` set m" by auto
  from Cons.prems have "distinct (map fst (m @ [(cat_id c, f c)]) @ map cat_id cs)" by auto
  from Cons.IH [OF this] new show ?case by (simp add: mapSet_new)
qed

lemma category_ids:
  "map cat_id categoryPatterns =
     [''financial'', ''hr'', ''marketing'', ''important'', ''social'', ''shopping'', ''travel'',
      ''bills'']"
  by (simp add: categoryPatterns_def)

lemma distinct_category_ids: "distinct (map cat_id categoryPatterns)"
  by (simp add: category_ids)

lemma genericScores_eq:
  "genericScores h email =
     map (\<lambda>c. (cat_id c, scoreOf h (fullTextOf email) (senderTextOf email) c)) categoryPatterns"
  using foldl_mapSet [of "[]" categoryPatterns] distinct_category_ids
  by (simp add: genericScores_def)

lemma mapSet_map_of:
  "distinct (map fst m) \<Longrightarrow> map_of m k = Some v0 \<Longrightarrow>
     mapSet k (g v0) m = map (\<lambda>p. if fst p = k then (fst p, g (snd p)) else p) m"
proof (induction m)
  case Nil
  then show ?case by simp
next
  case (Cons p m)
  obtain k' v' where p: "p = (k', v')" by (cases p)
  show ?case
  proof (cases "k' = k")
    case True
    with Cons.prems p have "k \<notin> fst ` set m" and v: "v0 = v'" by auto
    then have "map (\<lambda>p. if fst p = k then (fst p, g (snd p)) else p) m = m"
      by (intro map_idI) force
    with True p v show ?thesis by simp
  next
    case False
    with Cons p show ?thesis by auto
  qed
qed

lemma finalScores_eq:
  "finalScores h email =
     map (\<lambda>c. (cat_id c,
            if cat_id c = ''marketing'' \<and> hasUnsubscribe email
            then fadd (scoreOf h (fullTextOf email) (senderTextOf email) c) 1
            else scoreOf h (fullTextOf email) (senderTextOf email) c)) categoryPatterns"
proof (cases "hasUnsubscribe email")
  case False
  then show ?thesis by (simp add: finalScores_def genericScores_eq)
next
  case True
  let ?g = "genericScores h email"
  have keys: "map fst ?g = map cat_id categoryPatterns"
    by (simp add: genericScores_eq comp_def)
  have d: "distinct (map fst ?g)"
    by (simp only: keys distinct_category_ids)
  have "''marketing'' \<in> set (map fst ?g)"
    by (simp only: keys category_ids) simp
  then have "map_of ?g ''marketing'' \<noteq> None"
    by (simp only: map_of_eq_None_iff set_map) simp
  then obtain v where v: "map_of ?g ''marketing'' = Some v" by blast
  have "finalScores h email = mapSet ''marketing'' (fadd v 1) ?g"
    using True v by (simp add: finalScores_def)
  also have "\<dots> = map (\<lambda>p. if fst p = ''marketing'' then (fst p, fadd (snd p) 1) else p) ?g"
    using mapSet_map_of [OF d v, of "\<lambda>x. fadd x 1"] by simp
  also have "\<dots> = map (\<lambda>c. (cat_id c,
            if cat_id c = ''marketing''
            then fadd (scoreOf h (fullTextOf email) (senderTextOf email) c) 1
            else scoreOf h (fullTextOf email) (senderTextOf email) c)) categoryPatterns"
    unfolding genericScores_eq by (simp add: comp_def)
  finally show ?thesis using True by simp
qed

lemma findBest_none:
  "\<forall>p \<in> set sc. snd p \<le> s0 \<Longrightarrow> findBest sc (b0, s0) = (b0, s0)"
  by (induction sc) auto

lemma findBest_first_max:
  "i < length sc \<Longrightarrow> s0 < snd (sc ! i) \<Longrightarrow> \<forall>j < length sc. snd (sc ! j) \<le> snd (sc ! i) \<Longrightarrow>
     \<forall>j < i. snd (sc ! j) < snd (sc ! i) \<Longrightarrow> findBest sc (b0, s0) = sc ! i"
proof (induction sc arbitrary: i b0 s0)
  case Nil
  then show ?case by simp
next
  case (Cons p sc)
  obtain k v where p: "p = (k, v)" by (cases p)
  show ?case
  proof (cases i)
    case 0
    with Cons.prems p have "s0 < v" by simp
    moreover have "snd q \<le> v" if "q \<in> set sc" for q
    proof -
      from that obtain j where j: "j < length sc" "sc ! j = q"
        by (auto simp: in_set_conv_nth)
      with Cons.prems(3) [rule_format, of "Suc j"] 0 p show ?thesis by simp
    qed
    ultimately show ?thesis using p 0 by (simp add: findBest_none)
  next
    case (Suc i')
    from Cons.prems Suc have i': "i' < length sc" by simp
    from Cons.prems(4) [rule_format, of 0] Suc p have lt: "v < snd (sc ! i')" by simp
    have le: "\<forall>j < length sc. snd (sc ! j) \<le> snd (sc ! i')"
    proof (intro allI impI)
      fix j assume "j < length sc"
      with Cons.prems(3) [rule_format, of "Suc j"] Suc show "snd (sc ! j) \<le> snd (sc ! i')"
        by simp
    qed
    have first: "\<forall>j < i'. snd (sc ! j) < snd (sc ! i')"
    proof (intro allI impI)
      fix j assume "j < i'"
      with Cons.prems(4) [rule_format, of "Suc j"] Suc show "snd (sc ! j) < snd (sc ! i')"
        by simp
    qed
    show ?thesis
    proof (cases "s0 < v")
      case True
      with Cons.IH [OF i' lt le first, of k] p Suc show ?thesis by simp
    next
      case False
      from Cons.prems Suc have "s0 < snd (sc ! i')" by simp
      with Cons.IH [OF i' this le first, of b0] False p Suc show ?thesis by simp
    qed
  qed
qed

lemma findBest_key: "fst (findBest sc (b0, s0)) \<in> insert b0 (fst ` set sc)"
proof (induction sc arbitrary: b0 s0)
  case Nil
  then show ?case by simp
next
  case (Cons p sc)
  obtain k v where p: "p = (k, v)" by (cases p)
  show ?case
  proof (cases "s0 < v")
    case True
    with Cons [of k v] p show ?thesis by auto
  next
    case False
    with Cons [of b0 s0] p show ?thesis by auto
  qed
qed

lemma classify_category:
  "res_category (classify h email) = fst (findBest (finalScores h email) (''uncategorized'', 0))"
  by (simp add: classify_def split: prod.splits)

lemma foldl_if_fadd:
  "foldl (\<lambda>s p. if P p then fadd s x else s) z ps
     = foldl fadd z (replicate (length (filter P ps)) x)"
  by (induction ps arbitrary: z) simp_all

lemma scoreOf_accumulated:
  "emailScore h email c =
     foldl fadd 0
       (replicate (contentMatches h email c) (fmul 2 (weight c))
        @ replicate (senderMatches h email c) (fmul 3 (weight c))
        @ replicate (keywordHits email c) (fmul (1 / 2) (weight c)))"
  by (simp add: scoreOf_def Let_def foldl_if_fadd contentMatches_def senderMatches_def
        keywordHits_def)

lemma weights_nonneg: "c \<in> set categoryPatterns \<Longrightarrow> 0 \<le> weight c"
proof -
  have "list_all (\<lambda>c. 0 \<le> weight c) categoryPatterns" by code_simp
  then show "c \<in> set categoryPatterns \<Longrightarrow> 0 \<le> weight c" by (simp add: list_all_iff)
qed

lemma scoreOf_bounds:
  assumes "c \<in> set categoryPatterns"
  shows "(1 - unitRoundoff)
            ^ Suc (contentMatches h email c + senderMatches h email c + keywordHits email c)
          * exactScore h email c \<le> emailScore h email c
       \<and> emailScore h email c
          \<le> (1 + unitRoundoff)
               ^ Suc (contentMatches h email c + senderMatches h email c + keywordHits email c)
             * exactScore h email c"
  unfolding scoreOf_accumulated exactScore_def
  by (rule accumulated_bounds [OF weights_nonneg [OF assms]])

lemma exactScore_nonneg: "c \<in> set categoryPatterns \<Longrightarrow> 0 \<le> exactScore h email c"
  by (simp add: exactScore_def weights_nonneg)

lemma scoreOf_nonneg:
  assumes "c \<in> set categoryPatterns"
  shows "0 \<le> emailScore h email c"
proof -
  have "0 \<le> (1 - unitRoundoff)
            ^ Suc (contentMatches h email c + senderMatches h email c + keywordHits email c)
          * exactScore h email c"
    using unitRoundoff_range exactScore_nonneg [OF assms]
    by (intro mult_nonneg_nonneg zero_le_power) auto
  with scoreOf_bounds [OF assms, of h email] show ?thesis by linarith
qed

lemma bonus_bounds:
  assumes "c \<in> set categoryPatterns"
  shows "(1 - unitRoundoff) * (emailScore h email c + 1) \<le> fadd (emailScore h email c) 1
       \<and> fadd (emailScore h email c) 1 \<le> (1 + unitRoundoff) * (emailScore h email c + 1)"
  using dbl_between [of "emailScore h email c + 1"] scoreOf_nonneg [OF assms, of h email]
  by (simp add: fadd_def)

text \<open>
  C4. The score of a category is accumulated in doubles, from 0 and in this order: twice the
  weight is added for each content pattern that matches the text, three times the weight
  for each sender pattern that matches the sender, half the weight for each keyword that
  the text contains. For each category of the configuration it is the exact sum
  \<open>(2 * contentMatches + 3 * senderMatches + keywordHits / 2) * weight\<close> up to the rounding
  of the operations, a relative error of at most one unit roundoff for each of them. The
  scores that \<open>classify\<close> compares are one per category definition, in the order of the
  configuration: that score, and for \<open>marketing\<close>, when the message has an unsubscribe
  link, that score plus 1 (one more rounded addition), added after the pass over all
  categories. When no score is above zero the result is \<open>uncategorized\<close>. Otherwise the
  result is the category at the first position that holds the highest score: no category
  scores more, and every category before it scores strictly less.
\<close>

theorem C4_classify_best:
  "finalScores h email =
     map (\<lambda>c. (cat_id c,
            if cat_id c = ''marketing'' \<and> hasUnsubscribe email
            then fadd (emailScore h email c) 1 else emailScore h email c)) categoryPatterns
   \<and> (\<forall>c. emailScore h email c =
          foldl fadd 0
            (replicate (contentMatches h email c) (fmul 2 (weight c))
             @ replicate (senderMatches h email c) (fmul 3 (weight c))
             @ replicate (keywordHits email c) (fmul (1 / 2) (weight c))))
   \<and> (\<forall>c \<in> set categoryPatterns.
        (1 - unitRoundoff)
            ^ Suc (contentMatches h email c + senderMatches h email c + keywordHits email c)
          * exactScore h email c \<le> emailScore h email c
        \<and> emailScore h email c
          \<le> (1 + unitRoundoff)
               ^ Suc (contentMatches h email c + senderMatches h email c + keywordHits email c)
             * exactScore h email c
        \<and> (1 - unitRoundoff) * (emailScore h email c + 1) \<le> fadd (emailScore h email c) 1
        \<and> fadd (emailScore h email c) 1 \<le> (1 + unitRoundoff) * (emailScore h email c + 1))
   \<and> ((\<forall>p \<in> set (finalScores h email). snd p \<le> 0) \<longrightarrow>
        res_category (classify h email) = ''uncategorized'')
   \<and> (\<forall>i < length (finalScores h email).
        0 < snd (finalScores h email ! i)
        \<and> (\<forall>j < length (finalScores h email).
              snd (finalScores h email ! j) \<le> snd (finalScores h email ! i))
        \<and> (\<forall>j < i. snd (finalScores h email ! j) < snd (finalScores h email ! i))
        \<longrightarrow> res_category (classify h email) = fst (finalScores h email ! i))"
proof -
  let ?sc = "finalScores h email"
  have a: "res_category (classify h email) = ''uncategorized''"
    if "\<forall>p \<in> set ?sc. snd p \<le> 0"
    using findBest_none [OF that, of "''uncategorized''"] by (simp add: classify_category)
  have b: "res_category (classify h email) = fst (?sc ! i)"
    if "i < length ?sc" "0 < snd (?sc ! i)"
      "\<forall>j < length ?sc. snd (?sc ! j) \<le> snd (?sc ! i)"
      "\<forall>j < i. snd (?sc ! j) < snd (?sc ! i)" for i
    using findBest_first_max [OF that, of "''uncategorized''"] by (simp add: classify_category)
  have c: "\<forall>c \<in> set categoryPatterns.
        (1 - unitRoundoff)
            ^ Suc (contentMatches h email c + senderMatches h email c + keywordHits email c)
          * exactScore h email c \<le> emailScore h email c
        \<and> emailScore h email c
          \<le> (1 + unitRoundoff)
               ^ Suc (contentMatches h email c + senderMatches h email c + keywordHits email c)
             * exactScore h email c
        \<and> (1 - unitRoundoff) * (emailScore h email c + 1) \<le> fadd (emailScore h email c) 1
        \<and> fadd (emailScore h email c) 1 \<le> (1 + unitRoundoff) * (emailScore h email c + 1)"
    using scoreOf_bounds [of _ h email] bonus_bounds [of _ h email] by blast
  have d: "\<forall>c. emailScore h email c =
          foldl fadd 0
            (replicate (contentMatches h email c) (fmul 2 (weight c))
             @ replicate (senderMatches h email c) (fmul 3 (weight c))
             @ replicate (keywordHits email c) (fmul (1 / 2) (weight c)))"
    using scoreOf_accumulated by blast
  from a have e1: "(\<forall>p \<in> set ?sc. snd p \<le> 0) \<longrightarrow>
        res_category (classify h email) = ''uncategorized''"
    by blast
  from b have e2: "\<forall>i < length ?sc.
        0 < snd (?sc ! i)
        \<and> (\<forall>j < length ?sc. snd (?sc ! j) \<le> snd (?sc ! i))
        \<and> (\<forall>j < i. snd (?sc ! j) < snd (?sc ! i))
        \<longrightarrow> res_category (classify h email) = fst (?sc ! i)"
    by blast
  from finalScores_eq [of h email] d c e1 e2 show ?thesis by (intro conjI)
qed

theorem C4_classify_best_witness:
  "res_category (classify exampleHost statementEmail) = ''financial''
   \<and> res_category (classify exampleHost tieEmail) = ''hr''
   \<and> res_category (classify exampleHost bonusEmail) = ''marketing''
   \<and> res_category (classify exampleHost (bonusEmail\<lparr>hasUnsubscribe := False\<rparr>)) = ''financial''
   \<and> res_category (classify exampleHost emptyEmail) = ''uncategorized''
   \<and> (1 - unitRoundoff) ^ 5 * (15 / 2 * weight (categoryPatterns ! 0))
        \<le> emailScore exampleHost statementEmail (categoryPatterns ! 0)
   \<and> emailScore exampleHost statementEmail (categoryPatterns ! 0)
        \<le> (1 + unitRoundoff) ^ 5 * (15 / 2 * weight (categoryPatterns ! 0))"
proof -
  have fs1: "finalScores exampleHost statementEmail =
      [(''financial'', 5066549580791807 / 562949953421312), (''hr'', 0), (''marketing'', 0),
       (''important'', 0), (''social'', 0), (''shopping'', 0), (''travel'', 0),
       (''bills'', 2476979795053773 / 4503599627370496)]"
    by code_simp
  have fs2: "finalScores exampleHost tieEmail =
      [(''financial'', 0), (''hr'', 2476979795053773 / 4503599627370496),
       (''marketing'', 8106479329266893 / 18014398509481984), (''important'', 0),
       (''social'', 0), (''shopping'', 0), (''travel'', 2476979795053773 / 4503599627370496),
       (''bills'', 0)]"
    by code_simp
  have fs3: "finalScores exampleHost bonusEmail =
      [(''financial'', 3), (''hr'', 0), (''marketing'', 4165829655317709 / 1125899906842624),
       (''important'', 0), (''social'', 0), (''shopping'', 0), (''travel'', 0),
       (''bills'', 2476979795053773 / 4503599627370496)]"
    by code_simp
  have fs4: "finalScores exampleHost (bonusEmail\<lparr>hasUnsubscribe := False\<rparr>) =
      [(''financial'', 3), (''hr'', 0), (''marketing'', 3039929748475085 / 1125899906842624),
       (''important'', 0), (''social'', 0), (''shopping'', 0), (''travel'', 0),
       (''bills'', 2476979795053773 / 4503599627370496)]"
    by code_simp
  have fs0: "finalScores exampleHost emptyEmail =
      [(''financial'', 0), (''hr'', 0), (''marketing'', 0), (''important'', 0), (''social'', 0),
       (''shopping'', 0), (''travel'', 0), (''bills'', 0)]"
    by code_simp
  have counts: "contentMatches exampleHost statementEmail (categoryPatterns ! 0) = 2"
    "senderMatches exampleHost statementEmail (categoryPatterns ! 0) = 1"
    "keywordHits statementEmail (categoryPatterns ! 0) = 1"
    by code_simp+
  have first: "categoryPatterns ! 0 \<in> set categoryPatterns"
    by (simp add: categoryPatterns_def)
  have best1: "0 < length (finalScores exampleHost statementEmail)
      \<and> 0 < snd (finalScores exampleHost statementEmail ! 0)
      \<and> (\<forall>j < length (finalScores exampleHost statementEmail).
            snd (finalScores exampleHost statementEmail ! j)
              \<le> snd (finalScores exampleHost statementEmail ! 0))
      \<and> (\<forall>j < 0. snd (finalScores exampleHost statementEmail ! j)
              < snd (finalScores exampleHost statementEmail ! 0))"
    unfolding fs1 by (simp add: All_less_Suc)
  have best2: "1 < length (finalScores exampleHost tieEmail)
      \<and> 0 < snd (finalScores exampleHost tieEmail ! 1)
      \<and> (\<forall>j < length (finalScores exampleHost tieEmail).
            snd (finalScores exampleHost tieEmail ! j) \<le> snd (finalScores exampleHost tieEmail ! 1))
      \<and> (\<forall>j < 1. snd (finalScores exampleHost tieEmail ! j)
              < snd (finalScores exampleHost tieEmail ! 1))"
    unfolding fs2 by (simp add: All_less_Suc)
  have best3: "2 < length (finalScores exampleHost bonusEmail)
      \<and> 0 < snd (finalScores exampleHost bonusEmail ! 2)
      \<and> (\<forall>j < length (finalScores exampleHost bonusEmail).
            snd (finalScores exampleHost bonusEmail ! j)
              \<le> snd (finalScores exampleHost bonusEmail ! 2))
      \<and> (\<forall>j < 2. snd (finalScores exampleHost bonusEmail ! j)
              < snd (finalScores exampleHost bonusEmail ! 2))"
    unfolding fs3 by (simp add: All_less_Suc eval_nat_numeral)
  have best4: "0 < length (finalScores exampleHost (bonusEmail\<lparr>hasUnsubscribe := False\<rparr>))
      \<and> 0 < snd (finalScores exampleHost (bonusEmail\<lparr>hasUnsubscribe := False\<rparr>) ! 0)
      \<and> (\<forall>j < length (finalScores exampleHost (bonusEmail\<lparr>hasUnsubscribe := False\<rparr>)).
            snd (finalScores exampleHost (bonusEmail\<lparr>hasUnsubscribe := False\<rparr>) ! j)
              \<le> snd (finalScores exampleHost (bonusEmail\<lparr>hasUnsubscribe := False\<rparr>) ! 0))
      \<and> (\<forall>j < 0. snd (finalScores exampleHost (bonusEmail\<lparr>hasUnsubscribe := False\<rparr>) ! j)
              < snd (finalScores exampleHost (bonusEmail\<lparr>hasUnsubscribe := False\<rparr>) ! 0))"
    unfolding fs4 by (simp add: All_less_Suc)
  have none: "\<forall>p \<in> set (finalScores exampleHost emptyEmail). snd p \<le> 0"
    unfolding fs0 by simp
  from C4_classify_best [of exampleHost statementEmail] best1
  have r1: "res_category (classify exampleHost statementEmail)
          = fst (finalScores exampleHost statementEmail ! 0)"
    by blast
  from C4_classify_best [of exampleHost tieEmail] best2
  have r2: "res_category (classify exampleHost tieEmail)
          = fst (finalScores exampleHost tieEmail ! 1)"
    by blast
  from C4_classify_best [of exampleHost bonusEmail] best3
  have r3: "res_category (classify exampleHost bonusEmail)
          = fst (finalScores exampleHost bonusEmail ! 2)"
    by blast
  from C4_classify_best [of exampleHost "bonusEmail\<lparr>hasUnsubscribe := False\<rparr>"] best4
  have r4: "res_category (classify exampleHost (bonusEmail\<lparr>hasUnsubscribe := False\<rparr>))
          = fst (finalScores exampleHost (bonusEmail\<lparr>hasUnsubscribe := False\<rparr>) ! 0)"
    by blast
  from C4_classify_best [of exampleHost emptyEmail] none
  have r0: "res_category (classify exampleHost emptyEmail) = ''uncategorized''"
    by blast
  from C4_classify_best [of exampleHost statementEmail] first
  have "(1 - unitRoundoff)
            ^ Suc (contentMatches exampleHost statementEmail (categoryPatterns ! 0)
                   + senderMatches exampleHost statementEmail (categoryPatterns ! 0)
                   + keywordHits statementEmail (categoryPatterns ! 0))
          * exactScore exampleHost statementEmail (categoryPatterns ! 0)
          \<le> emailScore exampleHost statementEmail (categoryPatterns ! 0)
        \<and> emailScore exampleHost statementEmail (categoryPatterns ! 0)
          \<le> (1 + unitRoundoff)
               ^ Suc (contentMatches exampleHost statementEmail (categoryPatterns ! 0)
                   + senderMatches exampleHost statementEmail (categoryPatterns ! 0)
                   + keywordHits statementEmail (categoryPatterns ! 0))
             * exactScore exampleHost statementEmail (categoryPatterns ! 0)"
    by blast
  then have r5: "(1 - unitRoundoff) ^ 5 * (15 / 2 * weight (categoryPatterns ! 0))
        \<le> emailScore exampleHost statementEmail (categoryPatterns ! 0)
   \<and> emailScore exampleHost statementEmail (categoryPatterns ! 0)
        \<le> (1 + unitRoundoff) ^ 5 * (15 / 2 * weight (categoryPatterns ! 0))"
    by (simp add: exactScore_def counts eval_nat_numeral)
  from r1 r2 r3 r4 r0 r5 show ?thesis
    by (simp add: fs1 fs2 fs3 fs4)
qed

section \<open>The category of a message\<close>

lemma allowedCategories_eq:
  "allowedCategories =
     [''financial'', ''hr'', ''marketing'', ''important'', ''social'', ''shopping'', ''travel'',
      ''bills'', ''uncategorized'']"
  by (simp add: allowedCategories_def category_ids)

lemma classify_allowed: "res_category (classify h email) \<in> set allowedCategories"
proof -
  have "map fst (finalScores h email) = map cat_id categoryPatterns"
    by (simp add: finalScores_eq comp_def)
  then have "fst ` set (finalScores h email) = set (map cat_id categoryPatterns)"
    by (metis set_map)
  with findBest_key [of "finalScores h email" "''uncategorized''" 0]
  show ?thesis by (auto simp: classify_category allowedCategories_def)
qed

lemma updateEmailCategory_allowed:
  "categoriesAllowed st \<Longrightarrow> cat \<in> set allowedCategories \<Longrightarrow>
     categoriesAllowed (updateEmailCategory eid cat st)"
  by (auto simp: categoriesAllowed_def updateEmailCategory_def)

lemma updateEmailMetadata_allowed:
  "categoriesAllowed st \<Longrightarrow> categoriesAllowed (updateEmailMetadata eid imp kws st)"
  by (auto simp: categoriesAllowed_def updateEmailMetadata_def)

lemma markEmailsRead_allowed:
  "categoriesAllowed st \<Longrightarrow> categoriesAllowed (markEmailsRead ids rd st)"
  by (auto simp: categoriesAllowed_def markEmailsRead_def)

lemma deleteEmails_allowed:
  "categoriesAllowed st \<Longrightarrow> categoriesAllowed (deleteEmails ids st)"
  by (auto simp: categoriesAllowed_def deleteEmails_def)

lemma remote_allowed: "categoriesAllowed st \<Longrightarrow> categoriesAllowed (snd (remote h c st))"
  by (simp add: categoriesAllowed_def remote_def)

lemma classifyEach_allowed:
  "categoriesAllowed st \<Longrightarrow> categoriesAllowed (classifyEach h es st)"
  by (induction es arbitrary: st)
     (simp_all add: Let_def updateEmailCategory_allowed updateEmailMetadata_allowed classify_allowed)

lemma classifyEach_rules: "rules (classifyEach h es st) = rules st"
  by (induction es arbitrary: st)
     (simp_all add: Let_def updateEmailCategory_def updateEmailMetadata_def)

lemma executeAction_rules: "rules (snd (executeAction h email a st)) = rules st"
  by (simp add: executeAction_def Let_def pm_moveEmail_def pm_archiveEmail_def pm_deleteEmail_def
        remote_def markEmailsRead_def updateEmailCategory_def deleteEmails_def
      split: option.splits)

lemma executeActions_rules: "rules (executeActions h email as st) = rules st"
  by (induction as arbitrary: st) (simp_all add: executeAction_rules)

lemma executeAction_allowed:
  assumes "categoriesAllowed st" "actionAllowed a"
  shows "categoriesAllowed (snd (executeAction h email a st))"
proof -
  have del: "categoriesAllowed (snd (pm_deleteEmail h acct eid st))" for acct eid
    using assms(1) deleteEmails_allowed [of "snd (remote h (DeleteEmail acct eid) st)" "[eid]"]
      deleteEmails_allowed [of st "[eid]"] remote_allowed [of st h "DeleteEmail acct eid"]
    by (auto simp: pm_deleteEmail_def remote_def)
  from assms del show ?thesis
    by (auto simp: executeAction_def Let_def pm_moveEmail_def pm_archiveEmail_def
          remote_allowed markEmailsRead_allowed updateEmailCategory_allowed actionAllowed_def
        split: option.splits)
qed

lemma executeActions_allowed:
  "categoriesAllowed st \<Longrightarrow> \<forall>a \<in> set as. actionAllowed a \<Longrightarrow>
     categoriesAllowed (executeActions h email as st)"
  by (induction as arbitrary: st) (simp_all add: executeAction_allowed)

lemma saveRule_emails: "emails (snd (saveRule h obj st)) = emails st"
  by (simp add: saveRule_def Let_def)

lemma saveRule_rules:
  "set (rules (snd (saveRule h obj st))) \<subseteq>
     set (rules st)
     \<union> {r. actions r = obj_actions obj}"
  by (auto simp: saveRule_def Let_def)

lemma applyLoop_allowed:
  assumes "\<forall>r \<in> set rs. \<forall>a \<in> set (actions r). actionAllowed a"
    and "categoriesAllowed st" and "rulesAllowed st"
  shows "categoriesAllowed (snd (applyLoop h email rs sofar st))
         \<and> rulesAllowed (snd (applyLoop h email rs sofar st))"
  using assms
proof (induction rs arbitrary: sofar st)
  case Nil
  then show ?case by simp
next
  case (Cons rule rs)
  show ?case
  proof (cases "matchesConditions h email (conditions rule)")
    case False
    with Cons show ?thesis by simp
  next
    case True
    let ?obj = "(spread rule)\<lparr>hitCount := Some (plus_one (hitCount (spread rule))),
                               lastHit := Some (now_iso h)\<rparr>"
    let ?st1 = "snd (saveRule h ?obj st)"
    let ?st2 = "executeActions h email (actions rule) ?st1"
    from Cons.prems have ok: "\<forall>a \<in> set (actions rule). actionAllowed a" by simp
    have "categoriesAllowed ?st1"
      using Cons.prems(2) by (simp add: categoriesAllowed_def saveRule_emails)
    with ok have c2: "categoriesAllowed ?st2" by (simp add: executeActions_allowed)
    have "rulesAllowed ?st1"
      using Cons.prems(3) ok saveRule_rules [of h ?obj st]
      by (auto simp: rulesAllowed_def spread_def)
    then have r2: "rulesAllowed ?st2" by (simp add: rulesAllowed_def executeActions_rules)
    from Cons.prems have rest: "\<forall>r \<in> set rs. \<forall>a \<in> set (actions r). actionAllowed a" by simp
    from Cons.IH [OF rest c2 r2] True show ?thesis by (simp add: Let_def)
  qed
qed

lemma evaluationOrder_subset: "set (evaluationOrder st) \<subseteq> set (rules st)"
  by (auto simp: evaluationOrder_eq getRules_def set_sort_by)

lemma perform_allowed:
  assumes "categoriesAllowed st" "rulesAllowed st"
  shows "categoriesAllowed (perform h operation st) \<and> rulesAllowed (perform h operation st)"
proof (cases operation)
  case (ClassifyNewEmails acct)
  with assms show ?thesis
    by (simp add: classifyNewEmails_def classifyEach_allowed rulesAllowed_def classifyEach_rules)
next
  case (ApplyRulesToEmail email)
  have "\<forall>r \<in> set (evaluationOrder st). \<forall>a \<in> set (actions r). actionAllowed a"
    using assms(2) evaluationOrder_subset by (auto simp: rulesAllowed_def)
  from applyLoop_allowed [OF this assms] ApplyRulesToEmail show ?thesis
    by (simp add: applyRulesToEmail_def)
qed

lemma performAll_allowed:
  "categoriesAllowed st \<Longrightarrow> rulesAllowed st \<Longrightarrow>
     categoriesAllowed (performAll h ops st) \<and> rulesAllowed (performAll h ops st)"
  unfolding performAll_def
  by (induction ops arbitrary: st) (simp_all add: perform_allowed)

text \<open>
  C3, as stated, fails for the rule pass: the action \<open>categorize\<close> writes its value into
  the category column as it is, and the value of a rule is any string. After one pass
  with a rule that categorizes as \<open>receipts\<close>, the stored message has a category that is
  neither a configured id nor \<open>uncategorized\<close>.
\<close>

theorem C3_rule_writes_any_category:
  "map category (emails receiptsState) = [''uncategorized'']
   \<and> map category (emails (performAll exampleHost [ApplyRulesToEmail exampleEmail] receiptsState))
       = [''receipts'']
   \<and> ''receipts'' \<notin> set allowedCategories"
  by code_simp

text \<open>
  C3, amended. The configured ids are financial, hr, marketing, important, social,
  shopping, travel and bills, and \<open>classify\<close> returns one of them or \<open>uncategorized\<close>.
  When every stored message has such a category, and every \<open>categorize\<close> action of a
  stored rule carries one of them as its value, then after any sequence of
  classifications of new mail and rule passes every stored message still has such a
  category.
\<close>

theorem C3_category_invariant:
  assumes "\<forall>e \<in> set (emails st). category e \<in> set allowedCategories"
    and "\<forall>r \<in> set (rules st). \<forall>a \<in> set (actions r).
           action_type a = ''categorize'' \<longrightarrow>
             (\<exists>v. action_value a = Some v \<and> v \<in> set allowedCategories)"
  shows "allowedCategories =
           [''financial'', ''hr'', ''marketing'', ''important'', ''social'', ''shopping'',
            ''travel'', ''bills'', ''uncategorized'']
         \<and> res_category (classify h email) \<in> set allowedCategories
         \<and> (\<forall>e \<in> set (emails (performAll h ops st)). category e \<in> set allowedCategories)"
proof -
  from assms have "categoriesAllowed st" "rulesAllowed st"
    by (simp_all add: categoriesAllowed_def rulesAllowed_def actionAllowed_def)
  then have "categoriesAllowed (performAll h ops st)"
    by (simp add: performAll_allowed)
  then show ?thesis
    using allowedCategories_eq classify_allowed by (simp add: categoriesAllowed_def)
qed

theorem C3_category_invariant_witness:
  "map category
     (emails (performAll exampleHost [ClassifyNewEmails ''a1'', ApplyRulesToEmail exampleEmail]
        exampleState)) = [''financial'']
   \<and> category ` set (emails (performAll exampleHost
                 [ClassifyNewEmails ''a1'', ApplyRulesToEmail exampleEmail] exampleState))
       \<subseteq> set allowedCategories"
proof -
  have e: "\<forall>e \<in> set (emails exampleState). category e \<in> set allowedCategories"
    by (simp add: exampleState_def exampleEmail_def allowedCategories_eq)
  have r: "\<forall>r \<in> set (rules exampleState). \<forall>a \<in> set (actions r).
           action_type a = ''categorize'' \<longrightarrow>
             (\<exists>v. action_value a = Some v \<and> v \<in> set allowedCategories)"
    by (simp add: exampleState_def bankRule_def allowedCategories_eq)
  have run: "map category
     (emails (performAll exampleHost [ClassifyNewEmails ''a1'', ApplyRulesToEmail exampleEmail]
        exampleState)) = [''financial'']"
    by code_simp
  from C3_category_invariant [OF e r, of exampleHost exampleEmail
         "[ClassifyNewEmails ''a1'', ApplyRulesToEmail exampleEmail]"] run
  show ?thesis by blast
qed

end
